theory Spec2Isabelle
  imports Main "HOL-Library.AList"
begin

section \<open>Python values\<close>

text \<open>
  A runtime type is identified by its \<open>__module__\<close> and \<open>__name__\<close>. The module of a
  type can be \<open>None\<close>, which \<open>fullname\<close> tests for.
\<close>

record pytype =
  tmodule :: "string option"
  tname :: string

text \<open>
  The values the serializer sees. A \<open>dict\<close> is an association list in insertion order,
  with string keys; a well-formed one has distinct keys. \<open>VObj t attrs\<close> is an instance
  of the class \<open>t\<close> whose \<open>__dict__\<close> is \<open>attrs\<close>. \<open>VOpaque t s\<close> is a value of a type
  that is neither JSON-native nor has a \<open>__dict__\<close> (a \<open>datetime\<close>, say), \<open>s\<close> telling
  the values of the type apart. Numbers are the integers. Values are trees: an object
  reached by two paths is modelled as two values, so a change made through one path is
  not seen through the other.
\<close>

datatype pyval =
    VNone
  | VBool bool
  | VInt int
  | VStr string
  | VList "pyval list"
  | VDict "(string \<times> pyval) list"
  | VObj pytype "(string \<times> pyval) list"
  | VOpaque pytype string

type_synonym pydict = "(string \<times> pyval) list"

text \<open>
  The exceptions, by class; messages are dropped. \<open>KeyError\<close> carries the missing key.
  \<open>Raised\<close> is any exception of a user's constructor, encoder or decoder.
\<close>

datatype error =
    TypeError
  | KeyError pyval
  | AttributeError
  | RuntimeError
  | RecursionError
  | Raised string

definition builtin :: "string \<Rightarrow> pytype" where
  "builtin n = \<lparr>tmodule = Some ''builtins'', tname = n\<rparr>"

text \<open>\<open>type(obj)\<close>.\<close>

fun type_of :: "pyval \<Rightarrow> pytype" where
  "type_of VNone = builtin ''NoneType''"
| "type_of (VBool b) = builtin ''bool''"
| "type_of (VInt i) = builtin ''int''"
| "type_of (VStr s) = builtin ''str''"
| "type_of (VList xs) = builtin ''list''"
| "type_of (VDict d) = builtin ''dict''"
| "type_of (VObj t attrs) = t"
| "type_of (VOpaque t s) = t"

text \<open>\<open>key.startswith('_')\<close>.\<close>

fun startswith_underscore :: "string \<Rightarrow> bool" where
  "startswith_underscore [] = False"
| "startswith_underscore (c # cs) = (c = CHR ''_'')"

text \<open>
  \<open>fullname(o)\<close>: the name alone for a type without module or of the module of
  \<open>type\<close> (\<open>str.__class__.__module__\<close>, that is \<open>builtins\<close>), else module, dot, name.
\<close>

definition fullname :: "pytype \<Rightarrow> string" where
  "fullname o' =
     (case tmodule o' of
        None \<Rightarrow> tname o'
      | Some m \<Rightarrow> if m = ''builtins'' then tname o' else m @ ''.'' @ tname o')"

section \<open>Classes and the three registries\<close>

text \<open>
  A class, as far as deserialization uses it: its type, the parameter names that
  \<open>inspect.signature(cls.__init__)\<close> reports (\<open>self\<close> among them), and what
  \<open>cls(**kwargs)\<close> does: it raises, or returns an instance with the \<open>__dict__\<close> given.
  The classes are the user's, so \<open>cinit\<close> is a parameter of the model.
\<close>

record pyclass =
  ctype :: pytype
  cparams :: "string list"
  cinit :: "pydict \<Rightarrow> error + pydict"

record type_data =
  cls :: pyclass
  transient_attributes :: "string list"

text \<open>\<open>SerializableTypeData.__init__\<close>: no list of transient attributes is the empty one.\<close>

definition SerializableTypeData :: "pyclass \<Rightarrow> string list option \<Rightarrow> type_data" where
  "SerializableTypeData c ta =
     \<lparr>cls = c, transient_attributes = (case ta of None \<Rightarrow> [] | Some l \<Rightarrow> l)\<rparr>"

text \<open>
  The class attributes \<open>Serializable.serializable_types\<close>, \<open>Serializer.serializers\<close> and
  \<open>Deserializer.deserializers\<close>. A registered encoder or decoder is a function of the
  user's: it raises or returns a value, and is taken not to mutate its argument. The
  module registers one pair itself, for \<open>datetime\<close>, through the standard library's
  \<open>datetime\<close>; the registries are parameters here, so that pair is one possible content.
\<close>

record registry =
  serializable_types :: "string \<rightharpoonup> type_data"
  serializers :: "pytype \<rightharpoonup> (pyval \<Rightarrow> error + pyval)"
  deserializers :: "string \<rightharpoonup> (pydict \<Rightarrow> error + pyval)"

definition register_serializable_type ::
  "registry \<Rightarrow> pyclass \<Rightarrow> string list option \<Rightarrow> registry" where
  "register_serializable_type reg c ta =
     reg\<lparr>serializable_types :=
       (serializable_types reg)(fullname (ctype c) \<mapsto> SerializableTypeData c ta)\<rparr>"

text \<open>\<open>Serializer.__init__\<close>: the entry of the type is written, whatever was there.\<close>

definition Serializer_init ::
  "registry \<Rightarrow> (pyval \<Rightarrow> error + pyval) \<Rightarrow> pytype \<Rightarrow> registry" where
  "Serializer_init reg function serialized_type =
     reg\<lparr>serializers := (serializers reg)(serialized_type \<mapsto> function)\<rparr>"

text \<open>
  \<open>Deserializer.__init__\<close>: a bare \<open>raise\<close> with no active exception is a
  \<open>RuntimeError\<close>; the registry is then as it was.
\<close>

definition Deserializer_init ::
  "registry \<Rightarrow> (pydict \<Rightarrow> error + pyval) \<Rightarrow> pytype \<Rightarrow> error + registry" where
  "Deserializer_init reg function deserialized_type_name =
     (if tname deserialized_type_name \<in> dom (deserializers reg) then Inl RuntimeError
      else Inr (reg\<lparr>deserializers :=
             (deserializers reg)(tname deserialized_type_name \<mapsto> function)\<rparr>))"

section \<open>Serialization\<close>

text \<open>
  \<open>value['_serialized_type'] = name\<close> on what an encoder returned: only a \<open>dict\<close>
  supports the assignment.
\<close>

fun setitem :: "pyval \<Rightarrow> string \<Rightarrow> pyval \<Rightarrow> error + pyval" where
  "setitem (VDict d) k v = Inr (VDict (AList.update k v d))"
| "setitem w k v = Inl TypeError"

text \<open>
  The loop \<open>for key in to_remove: ignored_attributes[key] = getattr(obj, key);
  delattr(obj, key)\<close>, on the pair of \<open>ignored_attributes\<close> and \<open>obj.__dict__\<close>.
\<close>

fun remove_attributes ::
  "string list \<Rightarrow> pydict \<Rightarrow> pydict \<Rightarrow> error option \<times> pydict \<times> pydict" where
  "remove_attributes [] ignored attrs = (None, ignored, attrs)"
| "remove_attributes (key # to_remove) ignored attrs =
     (case map_of attrs key of
        None \<Rightarrow> (Some AttributeError, ignored, attrs)
      | Some v \<Rightarrow>
          remove_attributes to_remove (AList.update key v ignored) (AList.delete key attrs))"

text \<open>The loops \<open>for key, value in items: target[key] = value\<close>.\<close>

definition set_all :: "pydict \<Rightarrow> pydict \<Rightarrow> pydict" where
  "set_all items target = fold (\<lambda>(key, val) d. AList.update key val d) items target"

text \<open>
  The branch of \<open>serialize_object\<close> for an object with a \<open>__dict__\<close> whose type is
  registered. The result is the pair of what is returned (or raised) and the object as
  the call leaves it.
\<close>

definition serialize_attributes ::
  "type_data \<Rightarrow> pytype \<Rightarrow> pydict \<Rightarrow> bool \<Rightarrow> (error + pyval) \<times> pyval" where
  "serialize_attributes td typ attrs serialize_private_attributes =
     (let to_remove =
            (if \<not> serialize_private_attributes
             then filter startswith_underscore (map fst attrs) else [])
      in case remove_attributes to_remove [] attrs of
           (Some e, ignored1, attrs1) \<Rightarrow> (Inl e, VObj typ attrs1)
         | (None, ignored1, attrs1) \<Rightarrow>
            (let to_remove2 =
                   (if transient_attributes td \<noteq> []
                    then filter (\<lambda>key. key \<in> set (transient_attributes td)) (map fst attrs1)
                    else [])
             in case remove_attributes to_remove2 ignored1 attrs1 of
                  (Some e, ignored2, attrs2) \<Rightarrow> (Inl e, VObj typ attrs2)
                | (None, ignored2, attrs2) \<Rightarrow>
                   (let attrs3 = AList.update ''_serialized_type'' (VStr (fullname typ)) attrs2;
                        result = set_all attrs3 [];
                        attrs4 = set_all ignored2 attrs3
                    in (Inr (VDict result), VObj typ attrs4))))"

text \<open>\<open>Serializable.serialize_object\<close>.\<close>

definition serialize_object :: "registry \<Rightarrow> pyval \<Rightarrow> bool \<Rightarrow> (error + pyval) \<times> pyval" where
  "serialize_object reg obj serialize_private_attributes =
     (let typ = type_of obj
      in case serializers reg typ of
           Some f \<Rightarrow>
             (case f obj of
                Inl e \<Rightarrow> (Inl e, obj)
              | Inr v \<Rightarrow> (setitem v ''_serialized_type'' (VStr (tname typ)), obj))
         | None \<Rightarrow>
             (case obj of
                VObj t attrs \<Rightarrow>
                  (case serializable_types reg (fullname typ) of
                     None \<Rightarrow> (Inl TypeError, obj)
                   | Some td \<Rightarrow> serialize_attributes td typ attrs serialize_private_attributes)
              | _ \<Rightarrow> (Inl TypeError, obj)))"

text \<open>
  What \<open>json.loads(json.dumps(obj, default=f))\<close> returns: \<open>json\<close> is the standard
  library's, modelled from its documented behaviour. The encoder copies \<open>None\<close>,
  booleans, integers and strings, walks lists and dicts, and calls \<open>default\<close> on any
  other value, encoding what it returns in its place; decoding the text gives the same
  tree back. The first argument bounds the depth of the walk, as the interpreter's
  recursion limit does: beyond it the call raises \<open>RecursionError\<close>. Only the result
  is modelled here, not what the calls of \<open>default\<close> leave of the objects.
\<close>

fun mapM :: "('a \<Rightarrow> error + 'b) \<Rightarrow> 'a list \<Rightarrow> error + 'b list" where
  "mapM f [] = Inr []"
| "mapM f (x # xs) =
     (case f x of
        Inl e \<Rightarrow> Inl e
      | Inr y \<Rightarrow> (case mapM f xs of Inl e \<Rightarrow> Inl e | Inr ys \<Rightarrow> Inr (y # ys)))"

fun dumps_loads :: "nat \<Rightarrow> (pyval \<Rightarrow> error + pyval) \<Rightarrow> pyval \<Rightarrow> error + pyval" where
  "dumps_loads 0 dflt obj = Inl RecursionError"
| "dumps_loads (Suc n) dflt obj =
     (case obj of
        VNone \<Rightarrow> Inr obj
      | VBool b \<Rightarrow> Inr obj
      | VInt i \<Rightarrow> Inr obj
      | VStr s \<Rightarrow> Inr obj
      | VList xs \<Rightarrow>
          (case mapM (dumps_loads n dflt) xs of
             Inl e \<Rightarrow> Inl e
           | Inr ys \<Rightarrow> Inr (VList ys))
      | VDict d \<Rightarrow>
          (case mapM (\<lambda>(k, v). case dumps_loads n dflt v of
                                  Inl e \<Rightarrow> Inl e
                                | Inr w \<Rightarrow> Inr (k, w)) d of
             Inl e \<Rightarrow> Inl e
           | Inr d' \<Rightarrow> Inr (VDict d'))
      | _ \<Rightarrow>
          (case dflt obj of
             Inl e \<Rightarrow> Inl e
           | Inr r \<Rightarrow> dumps_loads n dflt r))"

text \<open>\<open>serialize\<close>, under the recursion limit \<open>limit\<close>.\<close>

definition serialize :: "nat \<Rightarrow> registry \<Rightarrow> pyval \<Rightarrow> bool \<Rightarrow> error + pyval" where
  "serialize limit reg obj serialize_private_attributes =
     dumps_loads limit (\<lambda>o'. fst (serialize_object reg o' serialize_private_attributes)) obj"

section \<open>Deserialization\<close>

text \<open>\<open>type(value) == list\<close>, and \<open>type(value) == dict and '_serialized_type' in value\<close>.\<close>

fun is_list :: "pyval \<Rightarrow> bool" where
  "is_list (VList xs) = True"
| "is_list v = False"

fun tagged_dict :: "pyval \<Rightarrow> bool" where
  "tagged_dict (VDict d) = (''_serialized_type'' \<in> fst ` set d)"
| "tagged_dict v = False"

text \<open>
  The lookups by the value under \<open>'_serialized_type'\<close>. A list or a dict is not
  hashable, so the membership test on the registry raises \<open>TypeError\<close>; any other value
  that is not a string is no key of a registry.
\<close>

fun unhashable :: "pyval \<Rightarrow> bool" where
  "unhashable (VList xs) = True"
| "unhashable (VDict d) = True"
| "unhashable v = False"

fun find_deserializer :: "registry \<Rightarrow> pyval \<Rightarrow> (pydict \<Rightarrow> error + pyval) option" where
  "find_deserializer reg (VStr s) = deserializers reg s"
| "find_deserializer reg v = None"

fun find_type_data :: "registry \<Rightarrow> pyval \<Rightarrow> type_data option" where
  "find_type_data reg (VStr s) = serializable_types reg s"
| "find_type_data reg v = None"

text \<open>
  The end of \<open>deserialize_dict\<close>, from the signature of the constructor on: the
  attributes that are no parameter of \<open>cls.__init__\<close> are taken out of
  \<open>deserialized_dict\<close>, the class is called with what is left as keyword arguments, and
  the attributes taken out are set on the instance.
\<close>

definition construct :: "pyclass \<Rightarrow> pydict \<Rightarrow> error + pyval" where
  "construct c deserialized_dict =
     (let attributes_not_to_constructor =
            set_all (filter (\<lambda>(candidate, v). candidate \<notin> set (cparams c)) deserialized_dict) [];
          kwargs = fold (\<lambda>(candidate, v) d. AList.delete candidate d)
                     attributes_not_to_constructor deserialized_dict
      in case cinit c kwargs of
           Inl e \<Rightarrow> Inl e
         | Inr attrs \<Rightarrow> Inr (VObj (ctype c) (set_all attributes_not_to_constructor attrs)))"

text \<open>
  \<open>deserialize\<close>, \<open>deserialize_dict\<close> with its loop over \<open>obj.items()\<close>, and
  \<open>deserialize_list\<close>. Each returns what the call returns or raises, and its argument
  as the call leaves it: \<open>deserialize_dict\<close> deletes and sets a key of \<open>obj\<close>.
\<close>

function deserialize :: "registry \<Rightarrow> bool \<Rightarrow> pyval \<Rightarrow> (error + pyval) \<times> pyval"
  and deserialize_dict :: "registry \<Rightarrow> bool \<Rightarrow> pydict \<Rightarrow> (error + pyval) \<times> pydict"
  and deserialize_items ::
    "registry \<Rightarrow> bool \<Rightarrow> pydict \<Rightarrow> pydict \<Rightarrow> (error + pydict) \<times> pydict"
  and deserialize_list ::
    "registry \<Rightarrow> bool \<Rightarrow> pyval list \<Rightarrow> (error + pyval list) \<times> pyval list"
where
  "deserialize reg p obj =
     (case obj of
        VList lst \<Rightarrow>
          (case deserialize_list reg p lst of
             (Inl e, lst') \<Rightarrow> (Inl e, VList lst')
           | (Inr vs, lst') \<Rightarrow> (Inr (VList vs), VList lst'))
      | VDict d \<Rightarrow>
          (case deserialize_dict reg p d of (r, d') \<Rightarrow> (r, VDict d'))
      | _ \<Rightarrow> (Inr obj, obj))"
| "deserialize_dict reg p obj =
     (case map_of obj ''_serialized_type'' of
        Some type_name \<Rightarrow>
          if unhashable type_name then (Inl TypeError, obj)
          else (case find_deserializer reg type_name of
                  Some f \<Rightarrow>
                    (let obj1 = AList.delete ''_serialized_type'' obj
                     in case f obj1 of
                          Inl e \<Rightarrow> (Inl e, obj1)
                        | Inr result \<Rightarrow>
                            (Inr result, AList.update ''_serialized_type'' type_name obj1))
                | None \<Rightarrow>
                    (case deserialize_items reg p obj [] of
                       (Inl e, obj') \<Rightarrow> (Inl e, obj')
                     | (Inr deserialized_dict, obj') \<Rightarrow>
                         (case find_type_data reg type_name of
                            None \<Rightarrow> (Inl (KeyError type_name), obj')
                          | Some td \<Rightarrow> (construct (cls td) deserialized_dict, obj'))))
      | None \<Rightarrow>
          (case deserialize_items reg p obj [] of
             (Inl e, obj') \<Rightarrow> (Inl e, obj')
           | (Inr deserialized_dict, obj') \<Rightarrow>
               (Inl (KeyError (VStr ''_serialized_type'')), obj')))"
| "deserialize_items reg p [] deserialized_dict = (Inr deserialized_dict, [])"
| "deserialize_items reg p ((key, val) # rest) deserialized_dict =
     (if key = ''_serialized_type'' \<or> (\<not> p \<and> startswith_underscore key) then
        (case deserialize_items reg p rest deserialized_dict of
           (r, rest') \<Rightarrow> (r, (key, val) # rest'))
      else if is_list val \<or> tagged_dict val then
        (case deserialize reg p val of
           (Inl e, val') \<Rightarrow> (Inl e, (key, val') # rest)
         | (Inr v, val') \<Rightarrow>
             (case deserialize_items reg p rest (AList.update key v deserialized_dict) of
                (r, rest') \<Rightarrow> (r, (key, val') # rest')))
      else
        (case deserialize_items reg p rest (AList.update key val deserialized_dict) of
           (r, rest') \<Rightarrow> (r, (key, val) # rest')))"
| "deserialize_list reg p [] = (Inr [], [])"
| "deserialize_list reg p (element # rest) =
     (case deserialize reg p element of
        (Inl e, element') \<Rightarrow> (Inl e, element' # rest)
      | (Inr v, element') \<Rightarrow>
          (case deserialize_list reg p rest of
             (Inl e, rest') \<Rightarrow> (Inl e, element' # rest')
           | (Inr vs, rest') \<Rightarrow> (Inr (v # vs), element' # rest')))"
  by pat_completeness auto
termination
  by (relation "measure (\<lambda>x. case x of
      Inl (Inl (reg, p, obj)) \<Rightarrow> 2 * size obj
    | Inl (Inr (reg, p, d)) \<Rightarrow> 2 * size_list (size_prod (\<lambda>_. 0) size) d + 1
    | Inr (Inl (reg, p, items, dd)) \<Rightarrow> 2 * size_list (size_prod (\<lambda>_. 0) size) items
    | Inr (Inr (reg, p, lst)) \<Rightarrow> 2 * size_list size lst + 1)") auto

section \<open>Notions for the properties of the loops\<close>

text \<open>
  The items that the loop of \<open>deserialize_dict\<close> does not skip, and what the loop puts
  into \<open>deserialized_dict\<close> for an item: the deserialized value for a list and for a
  dict with the key \<open>'_serialized_type'\<close>, the value itself otherwise.
\<close>

definition kept :: "bool \<Rightarrow> string \<times> pyval \<Rightarrow> bool" where
  "kept p kv = (\<not> (fst kv = ''_serialized_type'' \<or> (\<not> p \<and> startswith_underscore (fst kv))))"

definition decoded :: "registry \<Rightarrow> bool \<Rightarrow> string \<times> pyval \<Rightarrow> string \<times> pyval \<Rightarrow> bool" where
  "decoded reg p item kv =
     (fst kv = fst item \<and>
      (if is_list (snd item) \<or> tagged_dict (snd item)
       then fst (deserialize reg p (snd item)) = Inr (snd kv)
       else snd kv = snd item))"

section \<open>Notions for the round trip\<close>

text \<open>
  A plain value is JSON data: it holds no instance of a class and no value that needs
  an encoder.
\<close>

fun plain :: "pyval \<Rightarrow> bool" where
  "plain (VList xs) = (\<forall>x \<in> set xs. plain x)"
| "plain (VDict d) = (\<forall>kv \<in> set d. plain (snd kv))"
| "plain (VObj t attrs) = False"
| "plain (VOpaque t s) = False"
| "plain v = True"

text \<open>
  \<open>agrees i r\<close>: \<open>r\<close> equals \<open>i\<close> on the fields of \<open>i\<close>. Two instances agree when they
  have the same type and every attribute of the first is an attribute of the second
  with a value that agrees; lists agree elementwise; any other value agrees with itself
  only.
\<close>

fun agrees :: "pyval \<Rightarrow> pyval \<Rightarrow> bool" where
  "agrees (VObj t attrs) r =
     (case r of
        VObj t' attrs' \<Rightarrow>
          t' = t \<and>
          (\<forall>kv \<in> set attrs.
             case map_of attrs' (fst kv) of Some v' \<Rightarrow> agrees (snd kv) v' | None \<Rightarrow> False)
      | _ \<Rightarrow> False)"
| "agrees (VList xs) r =
     (case r of VList ys \<Rightarrow> list_all2 agrees xs ys | _ \<Rightarrow> False)"
| "agrees v r = (r = v)"

text \<open>
  \<open>ctor_stores c names\<close>: called with keyword arguments of these names, the
  constructor of \<open>c\<close> returns an instance that has each argument under its name.
\<close>

definition ctor_stores :: "pyclass \<Rightarrow> string list \<Rightarrow> bool" where
  "ctor_stores c names =
     (\<forall>kwargs. map fst kwargs = names \<longrightarrow>
        (\<exists>attrs. cinit c kwargs = Inr attrs
           \<and> (\<forall>kv \<in> set kwargs. map_of attrs (fst kv) = Some (snd kv))))"

text \<open>
  \<open>codec_round_trips reg v\<close>: the type of \<open>v\<close> has an encoder that returns a dict of
  plain values for \<open>v\<close>, and its name has a decoder that returns \<open>v\<close> for that dict.
\<close>

definition codec_round_trips :: "registry \<Rightarrow> pyval \<Rightarrow> bool" where
  "codec_round_trips reg v =
     (case serializers reg (type_of v) of
        None \<Rightarrow> False
      | Some f \<Rightarrow>
          (case f v of
             Inr (VDict d) \<Rightarrow>
               plain (VDict d) \<and>
               (case deserializers reg (tname (type_of v)) of
                  None \<Rightarrow> False
                | Some g \<Rightarrow> g (AList.delete ''_serialized_type'' d) = Inr v)
           | _ \<Rightarrow> False))"

text \<open>
  The values the round trip is proved for. An instance is supported when its type has
  no encoder and its full name no decoder, the class registered under the full name is
  its own, its attributes have distinct names, none private and none transient, the
  constructor stores those named by a parameter, and every attribute value is supported
  or is a dict of plain values without the key \<open>'_serialized_type'\<close>. A list is supported
  when its elements are; a value without \<open>__dict__\<close> when its codec round-trips; a dict
  that is no attribute value is not.
\<close>

fun supported :: "registry \<Rightarrow> pyval \<Rightarrow> bool" where
  "supported reg (VList xs) = (\<forall>x \<in> set xs. supported reg x)"
| "supported reg (VDict d) = False"
| "supported reg (VOpaque t s) = codec_round_trips reg (VOpaque t s)"
| "supported reg (VObj t attrs) =
     (serializers reg t = None \<and> deserializers reg (fullname t) = None \<and>
      (case serializable_types reg (fullname t) of
         None \<Rightarrow> False
       | Some td \<Rightarrow>
           ctype (cls td) = t \<and>
           (\<forall>key \<in> fst ` set attrs. key \<notin> set (transient_attributes td)) \<and>
           ctor_stores (cls td)
             (filter (\<lambda>key. key \<in> set (cparams (cls td))) (map fst attrs))) \<and>
      distinct (map fst attrs) \<and>
      (\<forall>kv \<in> set attrs.
         \<not> startswith_underscore (fst kv) \<and>
         (case snd kv of
            VDict d \<Rightarrow> ''_serialized_type'' \<notin> fst ` set d \<and> plain (VDict d)
          | v \<Rightarrow> supported reg v)))"
| "supported reg v = True"

section \<open>An example class\<close>

text \<open>
  The class of the examples, registered under \<open>app.Point\<close>:
  \<^verbatim>\<open>
  class Point:
      def __init__(self, x, y):
          self.x = x
          self.y = y
  register_serializable_type(Point, transient_attributes)
  \<close>
  The constructor raises \<open>TypeError\<close> unless it is given exactly \<open>x\<close> and \<open>y\<close>.
\<close>

definition point_type :: pytype where
  "point_type = \<lparr>tmodule = Some ''app'', tname = ''Point''\<rparr>"

definition point_class :: pyclass where
  "point_class =
     \<lparr>ctype = point_type, cparams = [''self'', ''x'', ''y''],
      cinit = (\<lambda>kwargs.
        case (map_of kwargs ''x'', map_of kwargs ''y'') of
          (Some x, Some y) \<Rightarrow>
            if length kwargs = 2 then Inr [(''x'', x), (''y'', y)] else Inl TypeError
        | _ \<Rightarrow> Inl TypeError)\<rparr>"

definition no_registrations :: registry where
  "no_registrations =
     \<lparr>serializable_types = Map.empty, serializers = Map.empty, deserializers = Map.empty\<rparr>"

definition point_registry :: "string list option \<Rightarrow> registry" where
  "point_registry ta = register_serializable_type no_registrations point_class ta"

text \<open>
  A \<open>Point\<close> that holds a list with another \<open>Point\<close>, an attribute set outside the
  constructor and a dict of plain values.
\<close>

definition nested_point :: pyval where
  "nested_point =
     VObj point_type
       [(''x'', VInt 1),
        (''y'', VList [VObj point_type [(''x'', VInt 2), (''y'', VInt 3)]]),
        (''label'', VStr ''origin''),
        (''meta'', VDict [(''k'', VInt 1)])]"

section \<open>Facts about the example\<close>

lemma fullname_point [simp]: "fullname point_type = ''app.Point''"
  by (simp add: fullname_def point_type_def)

lemma tname_point [simp]: "tname point_type = ''Point''"
  by (simp add: point_type_def)

lemma point_registry_simps [simp]:
  "serializers (point_registry ta) = Map.empty"
  "deserializers (point_registry ta) = Map.empty"
  "serializable_types (point_registry ta) =
     [''app.Point'' \<mapsto> SerializableTypeData point_class ta]"
  by (simp_all add: point_registry_def register_serializable_type_def no_registrations_def
      point_class_def)

lemma ctor_stores_point: "ctor_stores point_class [''x'', ''y'']"
  by (auto simp: ctor_stores_def point_class_def map_eq_Cons_conv)

section \<open>Association lists\<close>

lemma update_fresh: "k \<notin> fst ` set ys \<Longrightarrow> AList.update k v ys = ys @ [(k, v)]"
  by (induction ys) auto

lemma set_update_subset: "set (AList.update k v al) \<subseteq> insert (k, v) (set al)"
  by (induction al) auto

lemma delete_filter: "AList.delete k xs = filter (\<lambda>kv. fst kv \<noteq> k) xs"
  by (induction xs) (auto simp: AList.delete_eq)

lemma fold_delete_filter:
  "fold (\<lambda>(candidate, v) d. AList.delete candidate d) xs d
     = filter (\<lambda>kv. fst kv \<notin> fst ` set xs) d"
proof (induction xs arbitrary: d)
  case Nil
  then show ?case by simp
next
  case (Cons x xs)
  obtain k v where x: "x = (k, v)" by (cases x)
  have "fold (\<lambda>(candidate, v) d. AList.delete candidate d) (x # xs) d
        = filter (\<lambda>kv. fst kv \<notin> fst ` set xs) (AList.delete k d)"
    by (simp add: x Cons.IH)
  also have "\<dots> = filter (\<lambda>kv. fst kv \<notin> fst ` set (x # xs)) d"
    unfolding delete_filter filter_filter by (rule filter_cong) (auto simp: x)
  finally show ?case .
qed

lemma set_all_Nil: "set_all [] ys = ys"
  by (simp add: set_all_def)

lemma set_all_Cons: "set_all ((k, v) # xs) ys = set_all xs (AList.update k v ys)"
  by (simp add: set_all_def)

lemma set_all_append:
  "distinct (map fst xs) \<Longrightarrow> fst ` set xs \<inter> fst ` set ys = {} \<Longrightarrow> set_all xs ys = ys @ xs"
proof (induction xs arbitrary: ys)
  case Nil
  then show ?case by (simp add: set_all_def)
next
  case (Cons x xs)
  obtain k v where x: "x = (k, v)" by (cases x)
  have fresh: "k \<notin> fst ` set ys" using Cons.prems x by auto
  have "set_all (x # xs) ys = set_all xs (AList.update k v ys)"
    by (simp add: set_all_def x)
  also have "\<dots> = set_all xs (ys @ [(k, v)])"
    using fresh by (simp add: update_fresh)
  also have "\<dots> = (ys @ [(k, v)]) @ xs"
    using Cons.prems x by (intro Cons.IH) auto
  finally show ?case by (simp add: x)
qed

lemma set_all_copy: "distinct (map fst xs) \<Longrightarrow> set_all xs [] = xs"
  using set_all_append [of xs "[]"] by simp

lemma distinct_set_all: "distinct (map fst ys) \<Longrightarrow> distinct (map fst (set_all xs ys))"
proof (induction xs arbitrary: ys)
  case Nil
  then show ?case by (simp add: set_all_Nil)
next
  case (Cons x xs)
  then show ?case by (cases x) (simp add: set_all_Cons distinct_update)
qed

lemma keys_set_all: "fst ` set (set_all xs ys) = fst ` set ys \<union> fst ` set xs"
proof (induction xs arbitrary: ys)
  case Nil
  then show ?case by (simp add: set_all_Nil)
next
  case (Cons x xs)
  then show ?case by (cases x) (auto simp: set_all_Cons dom_update)
qed

lemma map_of_set_all:
  "map_of (set_all xs ys) = map_of ys ++ map_of (rev xs)"
proof (induction xs arbitrary: ys)
  case Nil
  then show ?case by (simp add: set_all_def)
next
  case (Cons x xs)
  have "set_all (x # xs) ys = set_all xs (AList.update (fst x) (snd x) ys)"
    by (cases x) (simp add: set_all_def)
  then show ?case
    by (simp add: Cons.IH update_conv' map_add_def fun_eq_iff split: option.splits)
qed

lemma map_of_rev_distinct:
  "distinct (map fst xs) \<Longrightarrow> map_of (rev xs) = map_of xs"
  by (rule map_of_inject_set [THEN iffD2]) (simp_all add: distinct_rev rev_map [symmetric])

lemma map_of_filter_key:
  "map_of (filter (\<lambda>kv. P (fst kv)) xs) k = (if P k then map_of xs k else None)"
  by (induction xs) auto

lemma filter_update_dropped:
  "\<not> P k \<Longrightarrow> filter (\<lambda>kv. P (fst kv)) (AList.update k v xs) = filter (\<lambda>kv. P (fst kv)) xs"
  by (induction xs) auto

lemma filter_set_all_dropped:
  "\<forall>kv \<in> set ys. \<not> P (fst kv) \<Longrightarrow>
   filter (\<lambda>kv. P (fst kv)) (set_all ys xs) = filter (\<lambda>kv. P (fst kv)) xs"
proof (induction ys arbitrary: xs)
  case Nil
  then show ?case by (simp add: set_all_Nil)
next
  case (Cons y ys)
  then show ?case
    by (cases y) (simp add: set_all_Cons filter_update_dropped)
qed

lemma map_of_extras:
  assumes "distinct (map fst dd)" and "(key, v) \<in> set dd" and "key \<notin> P"
  shows "map_of (set_all (filter (\<lambda>kv. fst kv \<notin> P) dd) attrs) key = Some v"
proof -
  have de: "distinct (map fst (filter (\<lambda>kv. fst kv \<notin> P) dd))"
    using assms(1) by (simp add: distinct_map_filter)
  have "map_of (filter (\<lambda>kv. fst kv \<notin> P) dd) key = Some v"
    using assms de by (intro map_of_is_SomeI) auto
  then show ?thesis
    by (simp add: map_of_set_all map_of_rev_distinct [OF de])
qed

lemma map_of_params:
  assumes "distinct (map fst dd)" and "key \<in> P"
  shows "map_of (set_all (filter (\<lambda>kv. fst kv \<notin> P) dd) attrs) key = map_of attrs key"
proof -
  have de: "distinct (map fst (filter (\<lambda>kv. fst kv \<notin> P) dd))"
    using assms(1) by (simp add: distinct_map_filter)
  have "map_of (filter (\<lambda>kv. fst kv \<notin> P) dd) key = None"
    using assms(2) by (auto simp: map_of_eq_None_iff)
  then show ?thesis
    by (simp add: map_of_set_all map_of_rev_distinct [OF de] map_add_def)
qed

section \<open>The removal loops of \<open>serialize_object\<close>\<close>

lemma remove_attributes_closed:
  "distinct ks \<Longrightarrow> set ks \<subseteq> fst ` set attrs \<Longrightarrow>
   remove_attributes ks ignored attrs =
     (None, set_all (map (\<lambda>k. (k, the (map_of attrs k))) ks) ignored,
      filter (\<lambda>kv. fst kv \<notin> set ks) attrs)"
proof (induction ks arbitrary: ignored attrs)
  case Nil
  then show ?case by (simp add: set_all_def)
next
  case (Cons k ks)
  from Cons.prems obtain v where v: "map_of attrs k = Some v"
    by (metis list.set_intros(1) subsetD weak_map_of_SomeI image_iff prod.collapse map_of_eq_None_iff not_None_eq)
  have sub: "set ks \<subseteq> fst ` set (AList.delete k attrs)"
  proof
    fix x assume x: "x \<in> set ks"
    then have "x \<noteq> k" using Cons.prems by auto
    moreover from x Cons.prems obtain b where "(x, b) \<in> set attrs" by force
    ultimately show "x \<in> fst ` set (AList.delete k attrs)"
      by (force simp: delete_filter)
  qed
  have same: "map (\<lambda>k'. (k', the (map_of (AList.delete k attrs) k'))) ks
              = map (\<lambda>k'. (k', the (map_of attrs k'))) ks"
    using Cons.prems by (auto simp: AList.delete_conv)
  have dk: "distinct ks" using Cons.prems by simp
  have flt: "filter (\<lambda>kv. fst kv \<notin> set ks) (AList.delete k attrs)
             = filter (\<lambda>kv. fst kv \<notin> set (k # ks)) attrs"
    unfolding delete_filter filter_filter by (rule filter_cong) auto
  have "remove_attributes (k # ks) ignored attrs
        = remove_attributes ks (AList.update k v ignored) (AList.delete k attrs)"
    using v by simp
  also have "\<dots> = (None,
      set_all (map (\<lambda>k'. (k', the (map_of (AList.delete k attrs) k'))) ks)
        (AList.update k v ignored),
      filter (\<lambda>kv. fst kv \<notin> set ks) (AList.delete k attrs))"
    by (rule Cons.IH [OF dk sub])
  also have "set_all (map (\<lambda>k'. (k', the (map_of (AList.delete k attrs) k'))) ks)
        (AList.update k v ignored)
      = set_all (map (\<lambda>k'. (k', the (map_of attrs k'))) (k # ks)) ignored"
    using v by (simp add: same set_all_def)
  finally show ?case by (simp only: flt)
qed

lemma remove_attributes_filter:
  assumes "distinct (map fst attrs)"
  shows "remove_attributes (filter P (map fst attrs)) ignored attrs =
           (None, set_all (filter (\<lambda>kv. P (fst kv)) attrs) ignored,
            filter (\<lambda>kv. \<not> P (fst kv)) attrs)"
proof -
  let ?ks = "filter P (map fst attrs)"
  have d: "distinct ?ks" using assms by simp
  have s: "set ?ks \<subseteq> fst ` set attrs" by auto
  have m: "map (\<lambda>k. (k, the (map_of attrs k))) ?ks = filter (\<lambda>kv. P (fst kv)) attrs"
    using assms
  proof (induction attrs)
    case Nil
    then show ?case by simp
  next
    case (Cons a attrs)
    obtain k v where a: "a = (k, v)" by (cases a)
    have fresh: "k \<notin> set (filter P (map fst attrs))" using Cons.prems a by auto
    have "map (\<lambda>k'. (k', the (map_of (a # attrs) k'))) (filter P (map fst attrs))
          = map (\<lambda>k'. (k', the (map_of attrs k'))) (filter P (map fst attrs))"
      using fresh by (intro map_cong refl) (auto simp: a)
    also have "\<dots> = filter (\<lambda>kv. P (fst kv)) attrs"
      using Cons by simp
    finally have rest: "map (\<lambda>k'. (k', the (map_of (a # attrs) k'))) (filter P (map fst attrs))
          = filter (\<lambda>kv. P (fst kv)) attrs" .
    show ?case
    proof (cases "P k")
      case True
      then show ?thesis using rest by (simp add: a)
    next
      case False
      then show ?thesis using rest by (simp add: a)
    qed
  qed
  have f: "filter (\<lambda>kv. fst kv \<notin> set ?ks) attrs = filter (\<lambda>kv. \<not> P (fst kv)) attrs"
    by (rule filter_cong) auto
  show ?thesis
    using remove_attributes_closed [OF d s, of ignored] by (simp only: m f)
qed

section \<open>The loops of \<open>deserialize\<close> and the call of the constructor\<close>

declare deserialize.simps [simp del] deserialize_dict.simps [simp del]

lemma deserialize_items_Inr_iff:
  "fst (deserialize_items reg p items acc) = Inr dd \<longleftrightarrow>
   (\<exists>kvs. list_all2 (decoded reg p) (filter (kept p) items) kvs \<and> dd = set_all kvs acc)"
proof (induction items arbitrary: acc)
  case Nil
  then show ?case by (auto simp: set_all_Nil)
next
  case (Cons a items)
  obtain key val where a: "a = (key, val)" by (cases a)
  show ?case
  proof (cases "kept p a")
    case False
    then have "fst (deserialize_items reg p (a # items) acc) = fst (deserialize_items reg p items acc)"
      by (auto simp: a kept_def split: prod.splits)
    then show ?thesis using False Cons.IH [of acc] by simp
  next
    case True
    then have k: "\<not> (key = ''_serialized_type'' \<or> (\<not> p \<and> startswith_underscore key))"
      by (simp add: a kept_def)
    show ?thesis
    proof (cases "is_list val \<or> tagged_dict val")
      case False
      then have "fst (deserialize_items reg p (a # items) acc)
                 = fst (deserialize_items reg p items (AList.update key val acc))"
        using k by (auto simp: a split: prod.splits)
      moreover have "decoded reg p a kv \<longleftrightarrow> kv = (key, val)" for kv
        using False by (cases kv) (auto simp: decoded_def a)
      ultimately show ?thesis
        using True Cons.IH [of "AList.update key val acc"]
        by (auto simp: list_all2_Cons1 set_all_Cons)
    next
      case dec: True
      show ?thesis
      proof (cases "fst (deserialize reg p val)")
        case (Inl e)
        then have "fst (deserialize_items reg p (a # items) acc) = Inl e"
          using k dec by (auto simp: a split: prod.splits)
        moreover have "\<not> decoded reg p a kv" for kv
          using dec Inl by (auto simp: decoded_def a)
        ultimately show ?thesis using True by (auto simp: list_all2_Cons1)
      next
        case (Inr v)
        then have "fst (deserialize_items reg p (a # items) acc)
                 = fst (deserialize_items reg p items (AList.update key v acc))"
          using k dec by (auto simp: a split: prod.splits)
        moreover have "decoded reg p a kv \<longleftrightarrow> kv = (key, v)" for kv
          using dec Inr by (cases kv) (auto simp: decoded_def a)
        ultimately show ?thesis
          using True Cons.IH [of "AList.update key v acc"]
          by (auto simp: list_all2_Cons1 set_all_Cons)
      qed
    qed
  qed
qed

lemma deserialize_items_distinct:
  assumes "fst (deserialize_items reg p items []) = Inr dd"
  shows "distinct (map fst dd)"
  using assms by (auto simp: deserialize_items_Inr_iff distinct_set_all)

lemma decoded_keys:
  "list_all2 (decoded reg p) xs kvs \<Longrightarrow> map fst kvs = map fst xs"
  by (induction rule: list_all2_induct) (auto simp: decoded_def)

lemma construct_closed:
  assumes "distinct (map fst dd)"
  shows "construct c dd =
    (case cinit c (filter (\<lambda>kv. fst kv \<in> set (cparams c)) dd) of
       Inl e \<Rightarrow> Inl e
     | Inr attrs \<Rightarrow>
         Inr (VObj (ctype c) (set_all (filter (\<lambda>kv. fst kv \<notin> set (cparams c)) dd) attrs)))"
proof -
  let ?extras = "filter (\<lambda>kv. fst kv \<notin> set (cparams c)) dd"
  have e: "filter (\<lambda>(candidate, v). candidate \<notin> set (cparams c)) dd = ?extras"
    by (rule filter_cong) auto
  have copy: "set_all ?extras [] = ?extras"
    using assms by (intro set_all_copy) (simp add: distinct_map_filter)
  have kw: "filter (\<lambda>kv. fst kv \<notin> fst ` set ?extras) dd
            = filter (\<lambda>kv. fst kv \<in> set (cparams c)) dd"
    by (rule filter_cong) force+
  show ?thesis
    unfolding construct_def Let_def e copy fold_delete_filter kw ..
qed

lemma deserialize_dict_descriptor:
  assumes "map_of obj ''_serialized_type'' = Some (VStr type_name)"
    and "deserializers reg type_name = None"
    and "serializable_types reg type_name = Some td"
    and "fst (deserialize_items reg p obj []) = Inr dd"
  shows "fst (deserialize_dict reg p obj) = construct (cls td) dd"
  using assms by (auto simp: deserialize_dict.simps split: prod.splits sum.splits)

lemma deserialize_VDict_fst:
  "fst (deserialize reg p (VDict d)) = fst (deserialize_dict reg p d)"
  by (simp add: deserialize.simps split: prod.splits)

lemma deserialize_VList_Inr:
  "fst (deserialize_list reg p xs) = Inr rs \<Longrightarrow>
   fst (deserialize reg p (VList xs)) = Inr (VList rs)"
  by (auto simp: deserialize.simps split: prod.splits sum.splits)

lemma deserialize_list_Inr:
  "list_all2 (\<lambda>x r. fst (deserialize reg p x) = Inr r) xs rs \<Longrightarrow>
   fst (deserialize_list reg p xs) = Inr rs"
  by (induction rule: list_all2_induct) (auto split: prod.splits sum.splits)

section \<open>Properties of \<open>serialize_object\<close>\<close>

text \<open>
  On a \<open>__dict__\<close> with distinct keys the two removal loops delete the private and
  the transient attributes, and nothing raises: the result is the remaining attributes
  with the type name set, and the object is left with the type name set and the removed
  attributes set again.
\<close>

lemma serialize_attributes_closed:
  assumes "distinct (map fst attrs)"
  shows "serialize_attributes td typ attrs p =
    (Inr (VDict (AList.update ''_serialized_type'' (VStr (fullname typ))
            (filter (\<lambda>kv. \<not> (\<not> p \<and> startswith_underscore (fst kv))
                          \<and> fst kv \<notin> set (transient_attributes td)) attrs))),
     VObj typ
       (set_all (filter (\<lambda>kv. \<not> p \<and> startswith_underscore (fst kv)) attrs
                 @ filter (\<lambda>kv. \<not> (\<not> p \<and> startswith_underscore (fst kv))
                                \<and> fst kv \<in> set (transient_attributes td)) attrs)
          (AList.update ''_serialized_type'' (VStr (fullname typ))
            (filter (\<lambda>kv. \<not> (\<not> p \<and> startswith_underscore (fst kv))
                          \<and> fst kv \<notin> set (transient_attributes td)) attrs))))"
proof -
  let ?priv = "\<lambda>kv::string \<times> pyval. \<not> p \<and> startswith_underscore (fst kv)"
  let ?trans = "\<lambda>kv::string \<times> pyval. fst kv \<in> set (transient_attributes td)"
  let ?to_remove = "if \<not> p then filter startswith_underscore (map fst attrs) else []"
  let ?attrs1 = "filter (\<lambda>kv. \<not> ?priv kv) attrs"
  let ?ign1 = "filter ?priv attrs"
  have r1: "remove_attributes ?to_remove [] attrs = (None, ?ign1, ?attrs1)"
  proof (cases p)
    case True
    then show ?thesis by simp
  next
    case False
    have "set_all (filter (\<lambda>kv. startswith_underscore (fst kv)) attrs) [] =
          filter (\<lambda>kv. startswith_underscore (fst kv)) attrs"
      using assms by (intro set_all_copy) (simp add: distinct_map_filter)
    then show ?thesis
      using False remove_attributes_filter [OF assms, of startswith_underscore "[]"] by simp
  qed
  have d1: "distinct (map fst ?attrs1)"
    using assms by (simp add: distinct_map_filter)
  let ?to_remove2 = "if transient_attributes td \<noteq> []
     then filter (\<lambda>key. key \<in> set (transient_attributes td)) (map fst ?attrs1) else []"
  let ?attrs2 = "filter (\<lambda>kv. \<not> ?trans kv) ?attrs1"
  let ?ign2 = "?ign1 @ filter ?trans ?attrs1"
  have app: "set_all (filter ?trans ?attrs1) ?ign1 = ?ign2"
    using assms by (intro set_all_append) (auto simp: distinct_map_filter)
  have r2: "remove_attributes ?to_remove2 ?ign1 ?attrs1 = (None, ?ign2, ?attrs2)"
  proof (cases "transient_attributes td = []")
    case True
    then show ?thesis by simp
  next
    case False
    then show ?thesis
      using remove_attributes_filter [OF d1, of "\<lambda>key. key \<in> set (transient_attributes td)" ?ign1]
        app by simp
  qed
  have a2: "?attrs2 = filter (\<lambda>kv. \<not> ?priv kv \<and> \<not> ?trans kv) attrs"
    unfolding filter_filter by (rule filter_cong) auto
  have i2: "filter ?trans ?attrs1 = filter (\<lambda>kv. \<not> ?priv kv \<and> ?trans kv) attrs"
    unfolding filter_filter by (rule filter_cong) auto
  let ?attrs3 = "AList.update ''_serialized_type'' (VStr (fullname typ)) ?attrs2"
  have d3: "distinct (map fst ?attrs3)"
    using assms by (intro distinct_update) (simp add: distinct_map_filter)
  have copy: "set_all ?attrs3 [] = ?attrs3"
    using d3 by (rule set_all_copy)
  have "serialize_attributes td typ attrs p = (Inr (VDict ?attrs3), VObj typ (set_all ?ign2 ?attrs3))"
    unfolding serialize_attributes_def Let_def r1 prod.case option.case r2 copy ..
  then show ?thesis
    unfolding a2 i2 .
qed

lemma serialize_object_attributes:
  assumes "serializers reg t = None" and "serializable_types reg (fullname t) = Some td"
  shows "serialize_object reg (VObj t attrs) p = serialize_attributes td t attrs p"
  using assms by (simp add: serialize_object_def)

text \<open>
  C8: a value whose type has neither an encoder in \<open>Serializer.serializers\<close> nor an entry
  in \<open>Serializable.serializable_types\<close> makes \<open>serialize_object\<close> raise \<open>TypeError\<close>
  (from the first \<open>raise\<close> when the value has a \<open>__dict__\<close>, from the last one
  otherwise), and the value is left as it was.
\<close>

theorem C8_unknown_type:
  assumes "serializers reg (type_of obj) = None"
    and "serializable_types reg (fullname (type_of obj)) = None"
  shows "serialize_object reg obj p = (Inl TypeError, obj)"
  using assms by (cases obj) (simp_all add: serialize_object_def)

text \<open>C8 at an instance of an unregistered class, and at a value without \<open>__dict__\<close>.\<close>

theorem C8_unknown_type_witness:
  "serialize_object no_registrations (VObj point_type [(''x'', VInt 1)]) False
     = (Inl TypeError, VObj point_type [(''x'', VInt 1)])
   \<and> serialize_object no_registrations (VOpaque \<lparr>tmodule = Some ''datetime'', tname = ''datetime''\<rparr> ''2023-01-01 00:00:00'') True
     = (Inl TypeError, VOpaque \<lparr>tmodule = Some ''datetime'', tname = ''datetime''\<rparr> ''2023-01-01 00:00:00'')"
  using C8_unknown_type [of no_registrations "VObj point_type [(''x'', VInt 1)]" False]
    C8_unknown_type [of no_registrations "VOpaque \<lparr>tmodule = Some ''datetime'', tname = ''datetime''\<rparr> ''2023-01-01 00:00:00''" True]
  by (simp add: no_registrations_def)

text \<open>
  C4: when the type of a value has both an encoder and an entry in
  \<open>serializable_types\<close>, \<open>serialize_object\<close> calls the encoder and returns its result with
  \<open>'_serialized_type'\<close> set to the name of the type; the attributes of the value are not
  enumerated, and the entry of \<open>serializable_types\<close> has no effect on the call.
\<close>

theorem C4_codec_precedence:
  assumes "serializers reg (type_of obj) = Some f"
    and "serializable_types reg (fullname (type_of obj)) = Some td"
  shows "serialize_object reg obj p =
           (case f obj of
              Inl e \<Rightarrow> (Inl e, obj)
            | Inr v \<Rightarrow> (setitem v ''_serialized_type'' (VStr (tname (type_of obj))), obj))
         \<and> (\<forall>d. f obj = Inr (VDict d) \<longrightarrow>
              serialize_object reg obj p =
                (Inr (VDict (AList.update ''_serialized_type'' (VStr (tname (type_of obj))) d)), obj))
         \<and> serialize_object reg obj p =
             serialize_object (reg\<lparr>serializable_types := Map.empty\<rparr>) obj p"
  using assms by (auto simp: serialize_object_def)

text \<open>C4 at a \<open>Point\<close> whose type is registered both ways.\<close>

theorem C4_codec_precedence_witness:
  "serialize_object
     (Serializer_init (point_registry None) (\<lambda>v. Inr (VDict [(''point'', VStr ''1,2'')])) point_type)
     (VObj point_type [(''x'', VInt 1), (''y'', VInt 2)]) False
   = (Inr (VDict [(''point'', VStr ''1,2''), (''_serialized_type'', VStr ''Point'')]),
      VObj point_type [(''x'', VInt 1), (''y'', VInt 2)])"
  using C4_codec_precedence [of
      "Serializer_init (point_registry None) (\<lambda>v. Inr (VDict [(''point'', VStr ''1,2'')])) point_type"
      "VObj point_type [(''x'', VInt 1), (''y'', VInt 2)]"
      "\<lambda>v. Inr (VDict [(''point'', VStr ''1,2'')])"
      "SerializableTypeData point_class None" False]
  by (simp add: Serializer_init_def)

text \<open>
  C7, as the code has it: for an object of a type registered with a non-empty list of
  transient attributes and serialized by enumerating its attributes (its type has no
  encoder), no key of the result other than \<open>'_serialized_type'\<close> is in that list, for
  either value of \<open>serialize_private_attributes\<close>.
\<close>

theorem C7_transient_attributes:
  assumes "serializers reg t = None"
    and "serializable_types reg (fullname t) = Some td"
    and "distinct (map fst attrs)"
    and "transient_attributes td \<noteq> []"
  shows "\<exists>result. fst (serialize_object reg (VObj t attrs) p) = Inr (VDict result)
           \<and> (\<forall>key \<in> set (transient_attributes td).
                 key \<noteq> ''_serialized_type'' \<longrightarrow> key \<notin> fst ` set result)"
  using assms
  by (auto simp: serialize_object_attributes serialize_attributes_closed dom_update)

text \<open>C7 at a \<open>Point\<close> with the transient attribute \<open>cache\<close>, private attributes included.\<close>

theorem C7_transient_attributes_witness:
  "fst (serialize_object (point_registry (Some [''cache'']))
          (VObj point_type [(''x'', VInt 1), (''cache'', VInt 7), (''_y'', VInt 2)]) True)
   = Inr (VDict [(''x'', VInt 1), (''_y'', VInt 2), (''_serialized_type'', VStr ''app.Point'')])"
  using C7_transient_attributes [of "point_registry (Some [''cache''])" point_type
      "SerializableTypeData point_class (Some [''cache''])"
      "[(''x'', VInt 1), (''cache'', VInt 7), (''_y'', VInt 2)]" True]
  by (simp add: serialize_object_def serialize_attributes_def SerializableTypeData_def
      set_all_def AList.delete_eq Let_def)

text \<open>
  C7 as it is stated fails twice. A \<open>Point\<close> whose type has the transient attribute
  \<open>cache\<close> and also an encoder that returns a copy of the \<open>__dict__\<close> is serialized by
  the encoder, before any attribute is removed, and \<open>cache\<close> is in the result. And when
  the list of transient attributes holds \<open>'_serialized_type'\<close>, that key is in the result
  all the same, since the call sets it after the removal.
\<close>

theorem C7_transient_attributes_counterexample:
  "fst (serialize_object
          (Serializer_init (point_registry (Some [''cache'']))
             (\<lambda>v. case v of VObj t attrs \<Rightarrow> Inr (VDict attrs) | _ \<Rightarrow> Inl TypeError)
             point_type)
          (VObj point_type [(''x'', VInt 1), (''cache'', VInt 7)]) False)
     = Inr (VDict [(''x'', VInt 1), (''cache'', VInt 7), (''_serialized_type'', VStr ''Point'')])
   \<and> fst (serialize_object (point_registry (Some [''_serialized_type'']))
          (VObj point_type [(''x'', VInt 1)]) True)
     = Inr (VDict [(''x'', VInt 1), (''_serialized_type'', VStr ''app.Point'')])"
  by (simp add: serialize_object_def serialize_attributes_def SerializableTypeData_def
      set_all_def AList.delete_eq Let_def Serializer_init_def)

text \<open>
  C6, as the code has it: for an object serialized by enumerating its attributes, without
  \<open>serialize_private_attributes\<close> the only key of the result that starts with an
  underscore is \<open>'_serialized_type'\<close>, and with it every attribute whose name starts with
  an underscore is in the result with its value, unless it is a transient attribute of
  the type or is named \<open>'_serialized_type'\<close>.
\<close>

theorem C6_private_attributes:
  assumes "serializers reg t = None"
    and "serializable_types reg (fullname t) = Some td"
    and "distinct (map fst attrs)"
  shows "\<exists>r0 r1.
           fst (serialize_object reg (VObj t attrs) False) = Inr (VDict r0)
         \<and> fst (serialize_object reg (VObj t attrs) True) = Inr (VDict r1)
         \<and> (\<forall>key \<in> fst ` set r0. startswith_underscore key \<longrightarrow> key = ''_serialized_type'')
         \<and> (\<forall>(key, val) \<in> set attrs.
               startswith_underscore key \<longrightarrow> key \<notin> set (transient_attributes td) \<longrightarrow>
               key \<noteq> ''_serialized_type'' \<longrightarrow> (key, val) \<in> set r1)"
proof -
  let ?tag = "''_serialized_type''"
  let ?keep = "\<lambda>p (kv::string \<times> pyval). \<not> (\<not> p \<and> startswith_underscore (fst kv))
                          \<and> fst kv \<notin> set (transient_attributes td)"
  let ?r = "\<lambda>p. AList.update ?tag (VStr (fullname t)) (filter (?keep p) attrs)"
  have res: "fst (serialize_object reg (VObj t attrs) p) = Inr (VDict (?r p))" for p
    using assms by (simp add: serialize_object_attributes serialize_attributes_closed)
  have omit: "\<forall>key \<in> fst ` set (?r False). startswith_underscore key \<longrightarrow> key = ?tag"
    by (auto simp: dom_update)
  have upd: "(key, val) \<in> set (AList.update k' v' xs)"
    if "key \<noteq> k'" "(key, val) \<in> set xs" for key val k' v' and xs :: pydict
    using that by (induction xs) auto
  have incl: "\<forall>(key, val) \<in> set attrs.
               startswith_underscore key \<longrightarrow> key \<notin> set (transient_attributes td) \<longrightarrow>
               key \<noteq> ?tag \<longrightarrow> (key, val) \<in> set (?r True)"
    by (auto intro!: upd)
  show ?thesis
    using res [of False] res [of True] omit incl by blast
qed

text \<open>C6 at a \<open>Point\<close> with the private attribute \<open>_secret\<close>.\<close>

theorem C6_private_attributes_witness:
  "fst (serialize_object (point_registry None)
          (VObj point_type [(''x'', VInt 1), (''_secret'', VInt 5)]) False)
   = Inr (VDict [(''x'', VInt 1), (''_serialized_type'', VStr ''app.Point'')])
   \<and> fst (serialize_object (point_registry None)
          (VObj point_type [(''x'', VInt 1), (''_secret'', VInt 5)]) True)
   = Inr (VDict [(''x'', VInt 1), (''_secret'', VInt 5),
                 (''_serialized_type'', VStr ''app.Point'')])"
  using C6_private_attributes [of "point_registry None" point_type
      "SerializableTypeData point_class None" "[(''x'', VInt 1), (''_secret'', VInt 5)]"]
  by (simp add: serialize_object_def serialize_attributes_def SerializableTypeData_def
      set_all_def AList.delete_eq Let_def)

text \<open>
  C6 as it is stated fails: a private attribute that is also a transient attribute of
  the type is left out of the result even with \<open>serialize_private_attributes\<close>.
\<close>

theorem C6_private_attributes_counterexample:
  "startswith_underscore ''_cache''
   \<and> fst (serialize_object (point_registry (Some [''_cache'']))
          (VObj point_type [(''x'', VInt 1), (''_cache'', VInt 7)]) True)
     = Inr (VDict [(''x'', VInt 1), (''_serialized_type'', VStr ''app.Point'')])"
  by (simp add: serialize_object_def serialize_attributes_def SerializableTypeData_def
      set_all_def AList.delete_eq Let_def)

text \<open>
  What the call leaves of an object serialized by enumerating its attributes: the
  attributes it had keep their values, whichever were removed on the way, and the
  object has one more attribute, \<open>_serialized_type\<close>, unless it had one already. The
  attribute \<open>_serialized_type\<close> itself keeps its value only when it was among those
  removed.
\<close>

lemma serialize_object_leaves:
  assumes "serializers reg t = None"
    and "serializable_types reg (fullname t) = Some td"
    and "distinct (map fst attrs)"
  shows "\<exists>attrs'. snd (serialize_object reg (VObj t attrs) p) = VObj t attrs'
           \<and> distinct (map fst attrs')
           \<and> fst ` set attrs' = insert ''_serialized_type'' (fst ` set attrs)
           \<and> (\<forall>key. key \<noteq> ''_serialized_type'' \<longrightarrow> map_of attrs' key = map_of attrs key)"
proof -
  let ?tag = "''_serialized_type''"
  let ?priv = "\<lambda>key. \<not> p \<and> startswith_underscore key"
  let ?keep = "\<lambda>key. \<not> ?priv key \<and> key \<notin> set (transient_attributes td)"
  let ?K = "filter (\<lambda>kv. ?keep (fst kv)) attrs"
  let ?I = "filter (\<lambda>kv. ?priv (fst kv)) attrs
            @ filter (\<lambda>kv. \<not> ?priv (fst kv) \<and> fst kv \<in> set (transient_attributes td)) attrs"
  let ?A3 = "AList.update ?tag (VStr (fullname t)) ?K"
  let ?attrs' = "set_all ?I ?A3"
  have snd: "snd (serialize_object reg (VObj t attrs) p) = VObj t ?attrs'"
    using assms by (simp add: serialize_object_attributes serialize_attributes_closed)
  have dI: "distinct (map fst ?I)"
    using assms(3) by (auto simp: distinct_map_filter)
  have d: "distinct (map fst ?attrs')"
    using assms(3) by (intro distinct_set_all distinct_update) (simp add: distinct_map_filter)
  have "fst ` set ?I \<union> fst ` set ?K = fst ` set attrs"
    by force
  then have keys: "fst ` set ?attrs' = insert ?tag (fst ` set attrs)"
    unfolding keys_set_all dom_update by blast
  have vals: "map_of ?attrs' key = map_of attrs key" if "key \<noteq> ?tag" for key
  proof -
    have I1: "map_of (filter (\<lambda>kv. ?priv (fst kv)) attrs) key
              = (if ?priv key then map_of attrs key else None)"
      by (rule map_of_filter_key [of ?priv])
    have I2: "map_of (filter (\<lambda>kv. \<not> ?priv (fst kv)
                 \<and> fst kv \<in> set (transient_attributes td)) attrs) key
              = (if \<not> ?priv key \<and> key \<in> set (transient_attributes td)
                 then map_of attrs key else None)"
      by (rule map_of_filter_key
          [of "\<lambda>key. \<not> ?priv key \<and> key \<in> set (transient_attributes td)"])
    have I: "map_of ?I key = (if ?keep key then None else map_of attrs key)"
      unfolding map_of_append map_add_def I1 I2 by (cases "map_of attrs key") auto
    have K0: "map_of ?K key = (if ?keep key then map_of attrs key else None)"
      by (rule map_of_filter_key [of ?keep])
    have K: "map_of ?A3 key = (if ?keep key then map_of attrs key else None)"
      using that unfolding update_conv' K0 [symmetric] by simp
    have "map_of ?attrs' key = (map_of ?A3 ++ map_of ?I) key"
      by (simp only: map_of_set_all map_of_rev_distinct [OF dI])
    also have "\<dots> = map_of attrs key"
      unfolding map_add_def I K by (simp split: option.splits)
    finally show ?thesis .
  qed
  show ?thesis using snd d keys vals by blast
qed


text \<open>
  Serializing the object as the first call left it gives the same result again.
\<close>

lemma serialize_object_twice:
  assumes "serializers reg t = None"
    and "serializable_types reg (fullname t) = Some td"
    and "distinct (map fst attrs)"
  shows "fst (serialize_object reg (snd (serialize_object reg (VObj t attrs) p)) p)
         = fst (serialize_object reg (VObj t attrs) p)"
proof -
  let ?tag = "''_serialized_type''"
  let ?priv = "\<lambda>key. \<not> p \<and> startswith_underscore key"
  let ?keep = "\<lambda>key. \<not> ?priv key \<and> key \<notin> set (transient_attributes td)"
  let ?K = "filter (\<lambda>kv. ?keep (fst kv)) attrs"
  let ?I = "filter (\<lambda>kv. ?priv (fst kv)) attrs
            @ filter (\<lambda>kv. \<not> ?priv (fst kv) \<and> fst kv \<in> set (transient_attributes td)) attrs"
  let ?A3 = "AList.update ?tag (VStr (fullname t)) ?K"
  let ?attrs' = "set_all ?I ?A3"
  have first: "serialize_object reg (VObj t attrs) p = (Inr (VDict ?A3), VObj t ?attrs')"
    using assms by (simp add: serialize_object_attributes serialize_attributes_closed)
  have d: "distinct (map fst ?attrs')"
    using assms(3) by (intro distinct_set_all distinct_update) (simp add: distinct_map_filter)
  have second: "fst (serialize_object reg (VObj t ?attrs') p)
      = Inr (VDict (AList.update ?tag (VStr (fullname t))
               (filter (\<lambda>kv. ?keep (fst kv)) ?attrs')))"
    using assms(1,2) d by (simp add: serialize_object_attributes serialize_attributes_closed)
  have "\<forall>kv \<in> set ?I. \<not> ?keep (fst kv)"
    by auto
  then have f1: "filter (\<lambda>kv. ?keep (fst kv)) ?attrs' = filter (\<lambda>kv. ?keep (fst kv)) ?A3"
    by (rule filter_set_all_dropped [of ?I ?keep])
  have f2: "AList.update ?tag (VStr (fullname t)) (filter (\<lambda>kv. ?keep (fst kv)) ?A3) = ?A3"
  proof (cases "?keep ?tag")
    case True
    have "\<forall>kv \<in> set ?A3. ?keep (fst kv)"
    proof
      fix kv assume "kv \<in> set ?A3"
      then have "kv = (?tag, VStr (fullname t)) \<or> kv \<in> set ?K"
        using set_update_subset [of ?tag "VStr (fullname t)" ?K] by blast
      then show "?keep (fst kv)" using True by auto
    qed
    then have "filter (\<lambda>kv. ?keep (fst kv)) ?A3 = ?A3"
      by (rule filter_True)
    then show ?thesis by (simp only: update_last)
  next
    case False
    have "filter (\<lambda>kv. ?keep (fst kv)) ?A3 = filter (\<lambda>kv. ?keep (fst kv)) ?K"
      using False by (rule filter_update_dropped [of ?keep])
    also have "\<dots> = ?K" by (simp only: filter_filter conj_absorb)
    finally show ?thesis by (simp only:)
  qed
  show ?thesis
    unfolding first snd_conv fst_conv second f1 f2 ..
qed


text \<open>
  C2 at a \<open>Point\<close> with \<open>x = 1\<close> and \<open>y = 2\<close>: the call returns the two attributes and the
  type name, and leaves the object with a third attribute, \<open>_serialized_type\<close>, that it
  did not have before.
\<close>

theorem C2_object_after_call:
  "serialize_object (point_registry None)
     (VObj point_type [(''x'', VInt 1), (''y'', VInt 2)]) False
   = (Inr (VDict [(''x'', VInt 1), (''y'', VInt 2), (''_serialized_type'', VStr ''app.Point'')]),
      VObj point_type
        [(''x'', VInt 1), (''y'', VInt 2), (''_serialized_type'', VStr ''app.Point'')])"
  by (simp add: serialize_object_def serialize_attributes_def SerializableTypeData_def
      set_all_def Let_def)

section \<open>Properties of \<open>deserialize\<close>\<close>

text \<open>
  C10: when the value under \<open>'_serialized_type'\<close> names a registered decoder and the
  decoder returns, the decoder is called on the dict without that key, the key is set
  again to the same value afterwards, and the dict holds the same key-value pairs after
  the call as before it (the key has moved to the end).
\<close>

theorem C10_decoder_restores_key:
  assumes "map_of obj ''_serialized_type'' = Some (VStr type_name)"
    and "deserializers reg type_name = Some f"
    and "f (AList.delete ''_serialized_type'' obj) = Inr result"
  shows "deserialize_dict reg p obj =
           (Inr result,
            AList.update ''_serialized_type'' (VStr type_name)
              (AList.delete ''_serialized_type'' obj))
         \<and> map_of (snd (deserialize_dict reg p obj)) = map_of obj"
proof -
  have "deserialize_dict reg p obj =
           (Inr result,
            AList.update ''_serialized_type'' (VStr type_name)
              (AList.delete ''_serialized_type'' obj))"
    using assms by (simp add: deserialize_dict.simps)
  moreover have "map_of (AList.update ''_serialized_type'' (VStr type_name)
              (AList.delete ''_serialized_type'' obj)) = map_of obj"
    using assms(1) by (auto simp: update_conv' delete_conv' fun_eq_iff)
  ultimately show ?thesis by simp
qed

text \<open>C10 at a serialized \<open>datetime\<close>, with a decoder that reads the key \<open>datetime\<close>.\<close>

theorem C10_witness:
  "deserialize_dict
     (no_registrations\<lparr>deserializers := [''datetime'' \<mapsto> (\<lambda>d. case map_of d ''datetime'' of
          Some (VStr s) \<Rightarrow> Inr (VOpaque \<lparr>tmodule = Some ''datetime'', tname = ''datetime''\<rparr> s)
        | _ \<Rightarrow> Inl TypeError)]\<rparr>) False
     [(''_serialized_type'', VStr ''datetime''), (''datetime'', VStr ''2023-01-01 00:00:00'')]
   = (Inr (VOpaque \<lparr>tmodule = Some ''datetime'', tname = ''datetime''\<rparr> ''2023-01-01 00:00:00''),
      [(''datetime'', VStr ''2023-01-01 00:00:00''), (''_serialized_type'', VStr ''datetime'')])"
  using C10_decoder_restores_key [of
     "[(''_serialized_type'', VStr ''datetime''), (''datetime'', VStr ''2023-01-01 00:00:00'')]"
     "''datetime''"
     "no_registrations\<lparr>deserializers := [''datetime'' \<mapsto> (\<lambda>d. case map_of d ''datetime'' of
          Some (VStr s) \<Rightarrow> Inr (VOpaque \<lparr>tmodule = Some ''datetime'', tname = ''datetime''\<rparr> s)
        | _ \<Rightarrow> Inl TypeError)]\<rparr>"
     "(\<lambda>d. case map_of d ''datetime'' of
          Some (VStr s) \<Rightarrow> Inr (VOpaque \<lparr>tmodule = Some ''datetime'', tname = ''datetime''\<rparr> s)
        | _ \<Rightarrow> Inl TypeError)"
     "VOpaque \<lparr>tmodule = Some ''datetime'', tname = ''datetime''\<rparr> ''2023-01-01 00:00:00''" False]
  by (simp add: AList.delete_eq)

text \<open>
  A dict without the key \<open>'_serialized_type'\<close> makes \<open>deserialize\<close> raise: \<open>KeyError\<close> for
  the missing key once the loop over its items is through, or what the loop raised.
\<close>

lemma deserialize_untagged_raises:
  assumes "''_serialized_type'' \<notin> fst ` set obj"
  shows "(\<exists>e. fst (deserialize reg p (VDict obj)) = Inl e)
         \<and> (\<forall>dd. fst (deserialize_items reg p obj []) = Inr dd \<longrightarrow>
               fst (deserialize reg p (VDict obj)) = Inl (KeyError (VStr ''_serialized_type'')))"
proof -
  have "map_of obj ''_serialized_type'' = None"
    using assms by (simp add: map_of_eq_None_iff)
  then show ?thesis
    by (auto simp: deserialize.simps deserialize_dict.simps split: prod.splits sum.splits)
qed

text \<open>
  C3 at the dict \<open>{'a': 1}\<close>: \<open>deserialize\<close> does not return it as a mapping but raises
  \<open>KeyError\<close> for the key \<open>'_serialized_type'\<close>, read without a test after the loop. The
  same dict as the value of an attribute of a serialized \<open>Point\<close> is let through by the
  loop and comes back as it is.
\<close>

theorem C3_untagged_mapping_raises:
  "fst (deserialize (point_registry None) False (VDict [(''a'', VInt 1)]))
     = Inl (KeyError (VStr ''_serialized_type''))
   \<and> fst (deserialize (point_registry None) False
       (VDict [(''x'', VDict [(''a'', VInt 1)]), (''y'', VInt 2),
               (''_serialized_type'', VStr ''app.Point'')]))
     = Inr (VObj point_type [(''x'', VDict [(''a'', VInt 1)]), (''y'', VInt 2)])"
  by (simp add: SerializableTypeData_def set_all_def Let_def
      deserialize.simps deserialize_dict.simps construct_def point_class_def AList.delete_eq)


text \<open>
  C5, as the code has it: for a dict whose \<open>'_serialized_type'\<close> names no decoder but a
  registered class, and whose items deserialize to \<open>dd\<close>: the constructor is called with
  the items of \<open>dd\<close> named by a parameter of \<open>__init__\<close>, the other items are set on the
  instance it returns, and that instance is returned. \<open>dd\<close> has the keys of the dict that
  the loop does not skip. The instance has every item of \<open>dd\<close> that went past the
  constructor, and under the name of a parameter what the constructor put there; it has
  every item of \<open>dd\<close> when the constructor stores each argument under its name.
\<close>

theorem C5_constructor_partition:
  assumes "map_of obj ''_serialized_type'' = Some (VStr type_name)"
    and "deserializers reg type_name = None"
    and "serializable_types reg type_name = Some td"
    and "fst (deserialize_items reg p obj []) = Inr dd"
  shows "fst (deserialize_dict reg p obj) =
           (case cinit (cls td) (filter (\<lambda>kv. fst kv \<in> set (cparams (cls td))) dd) of
              Inl e \<Rightarrow> Inl e
            | Inr attrs \<Rightarrow>
                Inr (VObj (ctype (cls td))
                  (set_all (filter (\<lambda>kv. fst kv \<notin> set (cparams (cls td))) dd) attrs)))
         \<and> fst ` set dd =
             {key \<in> fst ` set obj.
                key \<noteq> ''_serialized_type'' \<and> (p \<or> \<not> startswith_underscore key)}
         \<and> (\<forall>attrs. cinit (cls td) (filter (\<lambda>kv. fst kv \<in> set (cparams (cls td))) dd) = Inr attrs
               \<longrightarrow> (\<exists>attrs'. fst (deserialize_dict reg p obj) = Inr (VObj (ctype (cls td)) attrs')
                     \<and> (\<forall>(key, v) \<in> set dd.
                           key \<notin> set (cparams (cls td)) \<longrightarrow> map_of attrs' key = Some v)
                     \<and> (\<forall>key \<in> set (cparams (cls td)). map_of attrs' key = map_of attrs key)))
         \<and> (ctor_stores (cls td)
               (map fst (filter (\<lambda>kv. fst kv \<in> set (cparams (cls td))) dd))
               \<longrightarrow> (\<exists>attrs'. fst (deserialize_dict reg p obj) = Inr (VObj (ctype (cls td)) attrs')
                     \<and> (\<forall>(key, v) \<in> set dd. map_of attrs' key = Some v)))"
proof -
  let ?c = "cls td"
  let ?kw = "filter (\<lambda>kv. fst kv \<in> set (cparams ?c)) dd"
  let ?extras = "filter (\<lambda>kv. fst kv \<notin> set (cparams ?c)) dd"
  have d: "distinct (map fst dd)"
    using assms(4) by (rule deserialize_items_distinct)
  have eq: "fst (deserialize_dict reg p obj) =
           (case cinit ?c ?kw of
              Inl e \<Rightarrow> Inl e
            | Inr attrs \<Rightarrow> Inr (VObj (ctype ?c) (set_all ?extras attrs)))"
    using deserialize_dict_descriptor [OF assms] construct_closed [OF d] by simp
  obtain kvs where kvs: "list_all2 (decoded reg p) (filter (kept p) obj) kvs" "dd = set_all kvs []"
    using assms(4) by (auto simp: deserialize_items_Inr_iff)
  have "fst ` set dd = set (map fst kvs)"
    by (simp add: kvs(2) keys_set_all)
  also have "\<dots> = fst ` set (filter (kept p) obj)"
    unfolding decoded_keys [OF kvs(1)] by simp
  also have "\<dots> = {key \<in> fst ` set obj.
                key \<noteq> ''_serialized_type'' \<and> (p \<or> \<not> startswith_underscore key)}"
    by (force simp: kept_def)
  finally have keys: "fst ` set dd = {key \<in> fst ` set obj.
                key \<noteq> ''_serialized_type'' \<and> (p \<or> \<not> startswith_underscore key)}" .
  have extras: "map_of (set_all ?extras attrs) key = Some v"
    if "(key, v) \<in> set dd" "key \<notin> set (cparams ?c)" for attrs key v
    using map_of_extras [OF d that] .
  have params: "map_of (set_all ?extras attrs) key = map_of attrs key"
    if "key \<in> set (cparams ?c)" for attrs key
    using map_of_params [OF d that] .
  have third: "\<forall>attrs. cinit ?c ?kw = Inr attrs
               \<longrightarrow> (\<exists>attrs'. fst (deserialize_dict reg p obj) = Inr (VObj (ctype ?c) attrs')
                     \<and> (\<forall>(key, v) \<in> set dd.
                           key \<notin> set (cparams ?c) \<longrightarrow> map_of attrs' key = Some v)
                     \<and> (\<forall>key \<in> set (cparams ?c). map_of attrs' key = map_of attrs key))"
    using eq extras params by (auto split: sum.splits)
  have fourth: "\<exists>attrs'. fst (deserialize_dict reg p obj) = Inr (VObj (ctype ?c) attrs')
                     \<and> (\<forall>(key, v) \<in> set dd. map_of attrs' key = Some v)"
    if st: "ctor_stores ?c (map fst ?kw)"
  proof -
    obtain a where a: "cinit ?c ?kw = Inr a"
        "\<forall>kv \<in> set ?kw. map_of a (fst kv) = Some (snd kv)"
      using st unfolding ctor_stores_def by blast
    have r: "fst (deserialize_dict reg p obj) = Inr (VObj (ctype ?c) (set_all ?extras a))"
      using eq a(1) by simp
    have "map_of (set_all ?extras a) key = Some v" if kv: "(key, v) \<in> set dd" for key v
    proof (cases "key \<in> set (cparams ?c)")
      case True
      then have "(key, v) \<in> set ?kw" using kv by simp
      then have "map_of a key = Some v" using a(2) by force
      then show ?thesis using params [OF True] by simp
    next
      case False
      then show ?thesis using extras [OF kv] by simp
    qed
    then show ?thesis using r by blast
  qed
  show ?thesis
    using eq keys third fourth by blast
qed

text \<open>
  C5 at a serialized \<open>Point\<close> with the extra attribute \<open>label\<close>; the constructor of
  \<open>Point\<close> stores \<open>x\<close> and \<open>y\<close>.
\<close>

theorem C5_constructor_partition_witness:
  "ctor_stores point_class [''x'', ''y'']
   \<and> fst (deserialize_dict (point_registry None) False
          [(''x'', VInt 1), (''y'', VInt 2), (''label'', VStr ''origin''),
           (''_serialized_type'', VStr ''app.Point'')])
   = Inr (VObj point_type [(''x'', VInt 1), (''y'', VInt 2), (''label'', VStr ''origin'')])"
  using C5_constructor_partition [of
      "[(''x'', VInt 1), (''y'', VInt 2), (''label'', VStr ''origin''),
        (''_serialized_type'', VStr ''app.Point'')]"
      "''app.Point''" "point_registry None" "SerializableTypeData point_class None" False
      "[(''x'', VInt 1), (''y'', VInt 2), (''label'', VStr ''origin'')]"]
    ctor_stores_point
  by (simp add: SerializableTypeData_def point_class_def set_all_def)

text \<open>
  C5 as it is stated fails: with a class whose \<open>__init__(self, x, y)\<close> stores nothing,
  the instance returned carries neither \<open>x\<close> nor \<open>y\<close>.
\<close>

theorem C5_constructor_partition_counterexample:
  "fst (deserialize_dict
          (register_serializable_type no_registrations
             \<lparr>ctype = point_type, cparams = [''self'', ''x'', ''y''],
              cinit = (\<lambda>kwargs. Inr [])\<rparr> None)
          False
          [(''x'', VInt 1), (''y'', VInt 2), (''_serialized_type'', VStr ''app.Point'')])
   = Inr (VObj point_type [])"
  by (simp add: deserialize_dict.simps register_serializable_type_def no_registrations_def
      SerializableTypeData_def construct_def set_all_def AList.delete_eq)

section \<open>The round trip\<close>

lemma mapM_Inr: "list_all2 (\<lambda>x y. f x = Inr y) xs ys \<Longrightarrow> mapM f xs = Inr ys"
  by (induction rule: list_all2_induct) simp_all

lemma list_all2_chain:
  assumes "\<forall>x \<in> set xs. \<exists>j r. A x j \<and> B j r \<and> C x r"
  shows "\<exists>js rs. list_all2 A xs js \<and> list_all2 B js rs \<and> list_all2 C xs rs"
  using assms
proof (induction xs)
  case Nil
  then show ?case by simp
next
  case (Cons x xs)
  then obtain js rs where "list_all2 A xs js" "list_all2 B js rs" "list_all2 C xs rs"
    by auto
  moreover from Cons.prems obtain j r where "A x j" "B j r" "C x r"
    by auto
  ultimately have "list_all2 A (x # xs) (j # js) \<and> list_all2 B (j # js) (r # rs)
      \<and> list_all2 C (x # xs) (r # rs)"
    by simp
  then show ?case by blast
qed

lemma enough_for_all:
  "(\<forall>x \<in> set xs. \<exists>N. \<forall>n\<ge>N. P x n) \<Longrightarrow> \<exists>N::nat. \<forall>n\<ge>N. \<forall>x \<in> set xs. P x n"
proof (induction xs)
  case Nil
  then show ?case by simp
next
  case (Cons x xs)
  then obtain N1 N2 where "\<forall>n\<ge>N1. P x n" "\<forall>n\<ge>N2. \<forall>x \<in> set xs. P x n"
    by auto
  then have "\<forall>n\<ge>max N1 N2. \<forall>y \<in> set (x # xs). P y n"
    by auto
  then show ?case by blast
qed

lemma dumps_loads_plain:
  "plain v \<Longrightarrow> \<exists>N. \<forall>n\<ge>N. dumps_loads n dflt v = Inr v"
proof (induction v)
  case (VList xs)
  then have "\<forall>x \<in> set xs. \<exists>N. \<forall>n\<ge>N. dumps_loads n dflt x = Inr x"
    by simp
  then obtain N where N: "\<forall>n\<ge>N. \<forall>x \<in> set xs. dumps_loads n dflt x = Inr x"
    using enough_for_all [of xs "\<lambda>x n. dumps_loads n dflt x = Inr x"] by blast
  have "dumps_loads n dflt (VList xs) = Inr (VList xs)" if ge: "n \<ge> Suc N" for n
  proof -
    obtain m where m: "n = Suc m" "m \<ge> N" using ge by (cases n) auto
    have "list_all2 (\<lambda>x y. dumps_loads m dflt x = Inr y) xs xs"
      using N m by (simp add: list_all2_same)
    then have "mapM (dumps_loads m dflt) xs = Inr xs" by (rule mapM_Inr)
    then show ?thesis by (simp add: m)
  qed
  then show ?case by blast
next
  case (VDict d)
  then have "\<forall>kv \<in> set d. \<exists>N. \<forall>n\<ge>N. dumps_loads n dflt (snd kv) = Inr (snd kv)"
    by (auto simp: snds.simps)
  then obtain N where N: "\<forall>n\<ge>N. \<forall>kv \<in> set d. dumps_loads n dflt (snd kv) = Inr (snd kv)"
    using enough_for_all [of d "\<lambda>kv n. dumps_loads n dflt (snd kv) = Inr (snd kv)"] by blast
  have "dumps_loads n dflt (VDict d) = Inr (VDict d)" if ge: "n \<ge> Suc N" for n
  proof -
    obtain m where m: "n = Suc m" "m \<ge> N" using ge by (cases n) auto
    have "list_all2 (\<lambda>x y. (case x of (k, v) \<Rightarrow> case dumps_loads m dflt v of
                                  Inl e \<Rightarrow> Inl e
                                | Inr w \<Rightarrow> Inr (k, w)) = Inr y) d d"
      using N m by (force simp: list_all2_same)
    then have "mapM (\<lambda>(k, v). case dumps_loads m dflt v of
                                  Inl e \<Rightarrow> Inl e
                                | Inr w \<Rightarrow> Inr (k, w)) d = Inr d" by (rule mapM_Inr)
    then show ?thesis by (simp add: m)
  qed
  then show ?case by blast
next
  case VNone
  have "dumps_loads n dflt VNone = Inr VNone" if "n \<ge> 1" for n
    using that by (cases n) auto
  then show ?case by blast
next
  case (VBool b)
  have "dumps_loads n dflt (VBool b) = Inr (VBool b)" if "n \<ge> 1" for n
    using that by (cases n) auto
  then show ?case by blast
next
  case (VInt i)
  have "dumps_loads n dflt (VInt i) = Inr (VInt i)" if "n \<ge> 1" for n
    using that by (cases n) auto
  then show ?case by blast
next
  case (VStr s)
  have "dumps_loads n dflt (VStr s) = Inr (VStr s)" if "n \<ge> 1" for n
    using that by (cases n) auto
  then show ?case by blast
qed simp_all

lemma serialize_object_allowed:
  assumes "serializers reg t = None"
    and "serializable_types reg (fullname t) = Some td"
    and "distinct (map fst attrs)"
    and "\<forall>kv \<in> set attrs. \<not> startswith_underscore (fst kv)"
    and "\<forall>key \<in> fst ` set attrs. key \<notin> set (transient_attributes td)"
  shows "fst (serialize_object reg (VObj t attrs) False)
         = Inr (VDict (attrs @ [(''_serialized_type'', VStr (fullname t))]))"
proof -
  have keep: "filter (\<lambda>kv. \<not> startswith_underscore (fst kv)
                          \<and> fst kv \<notin> set (transient_attributes td)) attrs = attrs"
    using assms(4,5) by (auto simp: filter_id_conv)
  have fresh: "''_serialized_type'' \<notin> fst ` set attrs"
    using assms(4) by force
  show ?thesis
    using assms(1-3)
    by (simp add: serialize_object_attributes serialize_attributes_closed keep
        update_fresh [OF fresh])
qed

lemma round_trip_object:
  fixes reg :: registry and m :: nat
  defines "dflt \<equiv> (\<lambda>o'. fst (serialize_object reg o' False))"
  assumes t: "serializers reg t = None" "deserializers reg (fullname t) = None"
      "serializable_types reg (fullname t) = Some td" "ctype (cls td) = t"
    and allowed: "distinct (map fst attrs)"
      "\<forall>kv \<in> set attrs. \<not> startswith_underscore (fst kv)"
      "\<forall>key \<in> fst ` set attrs. key \<notin> set (transient_attributes td)"
    and ctor: "ctor_stores (cls td)
             (filter (\<lambda>key. key \<in> set (cparams (cls td))) (map fst attrs))"
    and enc: "list_all2 (\<lambda>kv kj. (case kv of (k, v) \<Rightarrow> case dumps_loads m dflt v of
                                  Inl e \<Rightarrow> Inl e
                                | Inr w \<Rightarrow> Inr (k, w)) = Inr kj) attrs js"
    and dec: "list_all2 (decoded reg False) js kvs"
    and agr: "list_all2 (\<lambda>kv kr. agrees (snd kv) (snd kr)) attrs kvs"
    and m: "1 \<le> m"
  shows "\<exists>r. dumps_loads (Suc (Suc m)) dflt (VObj t attrs)
              = Inr (VDict (js @ [(''_serialized_type'', VStr (fullname t))]))
           \<and> fst (deserialize reg False
                  (VDict (js @ [(''_serialized_type'', VStr (fullname t))]))) = Inr r
           \<and> agrees (VObj t attrs) r"
proof -
  let ?tag = "(''_serialized_type'', VStr (fullname t))"
  let ?c = "cls td"
  let ?L = "\<lambda>(k, v). case dumps_loads m dflt v of Inl e \<Rightarrow> Inl e | Inr w \<Rightarrow> Inr (k, w)"
  \<comment> \<open>encoding\<close>
  have d0: "dflt (VObj t attrs) = Inr (VDict (attrs @ [?tag]))"
    unfolding dflt_def using t(1,3) allowed by (rule serialize_object_allowed)
  obtain m' where m': "m = Suc m'" using m by (cases m) auto
  have Ltag: "?L ?tag = Inr ?tag"
    by (simp add: m')
  have "list_all2 (\<lambda>x y. ?L x = Inr y) (attrs @ [?tag]) (js @ [?tag])"
    using enc Ltag by (intro list_all2_appendI) auto
  then have "mapM ?L (attrs @ [?tag]) = Inr (js @ [?tag])"
    by (rule mapM_Inr)
  then have e: "dumps_loads (Suc (Suc m)) dflt (VObj t attrs) = Inr (VDict (js @ [?tag]))"
    by (simp add: d0)
  \<comment> \<open>the keys\<close>
  have kj: "map fst js = map fst attrs"
    using enc by (induction rule: list_all2_induct) (auto split: sum.splits)
  have kk: "map fst kvs = map fst js"
    using dec by (rule decoded_keys)
  have dk: "distinct (map fst kvs)"
    using allowed(1) by (simp add: kk kj)
  have nopriv: "\<forall>kv \<in> set js. \<not> startswith_underscore (fst kv)"
  proof
    fix kv assume "kv \<in> set js"
    then have "fst kv \<in> set (map fst attrs)" unfolding kj [symmetric] by simp
    then show "\<not> startswith_underscore (fst kv)" using allowed(2) by auto
  qed
  have notag: "''_serialized_type'' \<notin> fst ` set js"
    using nopriv by force
  \<comment> \<open>decoding\<close>
  have tagv: "map_of (js @ [?tag]) ''_serialized_type'' = Some (VStr (fullname t))"
  proof -
    have "map_of js ''_serialized_type'' = None"
      using notag by (simp add: map_of_eq_None_iff)
    then show ?thesis by (simp add: map_add_def)
  qed
  have "filter (kept False) (js @ [?tag]) = js"
    using nopriv by (auto simp: kept_def filter_id_conv)
  then have "fst (deserialize_items reg False (js @ [?tag]) []) = Inr (set_all kvs [])"
    using dec by (auto simp: deserialize_items_Inr_iff)
  then have items: "fst (deserialize_items reg False (js @ [?tag]) []) = Inr kvs"
    by (simp add: set_all_copy [OF dk])
  have "fst (deserialize_dict reg False (js @ [?tag])) = construct ?c kvs"
    using tagv t(2) t(3) items by (rule deserialize_dict_descriptor)
  then have dd: "fst (deserialize_dict reg False (js @ [?tag])) =
      (case cinit ?c (filter (\<lambda>kv. fst kv \<in> set (cparams ?c)) kvs) of
         Inl e \<Rightarrow> Inl e
       | Inr a \<Rightarrow> Inr (VObj (ctype ?c)
                  (set_all (filter (\<lambda>kv. fst kv \<notin> set (cparams ?c)) kvs) a)))"
    by (simp add: construct_closed [OF dk])
  let ?kw = "filter (\<lambda>kv. fst kv \<in> set (cparams ?c)) kvs"
  have "map fst ?kw = filter (\<lambda>key. key \<in> set (cparams ?c)) (map fst attrs)"
    by (simp add: filter_map comp_def kk kj flip: kj kk)
  then obtain a where a: "cinit ?c ?kw = Inr a"
      "\<forall>kv \<in> set ?kw. map_of a (fst kv) = Some (snd kv)"
    using ctor unfolding ctor_stores_def by blast
  let ?attrs' = "set_all (filter (\<lambda>kv. fst kv \<notin> set (cparams ?c)) kvs) a"
  have r: "fst (deserialize reg False (VDict (js @ [?tag]))) = Inr (VObj t ?attrs')"
    using dd a(1) t(4) by (simp add: deserialize_VDict_fst)
  have stored: "map_of ?attrs' (fst kr) = Some (snd kr)" if "kr \<in> set kvs" for kr
  proof (cases "fst kr \<in> set (cparams ?c)")
    case True
    then have "kr \<in> set ?kw" using that by simp
    then show ?thesis
      using a(2) True by (simp add: map_of_params [OF dk])
  next
    case False
    then show ?thesis
      using map_of_extras [OF dk, of "fst kr" "snd kr" "set (cparams ?c)" a] that by simp
  qed
  have "\<forall>kv \<in> set attrs. case map_of ?attrs' (fst kv) of
            Some v' \<Rightarrow> agrees (snd kv) v' | None \<Rightarrow> False"
  proof
    fix kv assume "kv \<in> set attrs"
    then obtain i where i: "i < length attrs" "kv = attrs ! i"
      by (auto simp: in_set_conv_nth)
    have len: "length kvs = length attrs"
      using agr by (simp add: list_all2_lengthD)
    have ag: "agrees (snd kv) (snd (kvs ! i))"
      using agr i by (simp add: list_all2_conv_all_nth)
    have "fst (kvs ! i) = fst kv"
      using i len kk kj by (metis length_map nth_map)
    moreover have "kvs ! i \<in> set kvs" using i len by simp
    ultimately have "map_of ?attrs' (fst kv) = Some (snd (kvs ! i))"
      using stored [of "kvs ! i"] by simp
    then show "case map_of ?attrs' (fst kv) of
            Some v' \<Rightarrow> agrees (snd kv) v' | None \<Rightarrow> False"
      using ag by simp
  qed
  then have "agrees (VObj t attrs) (VObj t ?attrs')"
    by simp
  then show ?thesis using e r by blast
qed

lemma dumps_loads_scalar:
  assumes "1 \<le> n" and "v = VNone \<or> (\<exists>b. v = VBool b) \<or> (\<exists>i. v = VInt i) \<or> (\<exists>s. v = VStr s)"
  shows "dumps_loads n dflt v = Inr v"
  using assms by (cases n) auto

lemma round_trip_value:
  fixes reg :: registry
  defines "dflt \<equiv> (\<lambda>o'. fst (serialize_object reg o' False))"
  shows "supported reg v \<Longrightarrow>
         \<exists>N. \<forall>n\<ge>N. \<exists>j r. dumps_loads n dflt v = Inr j
                \<and> fst (deserialize reg False j) = Inr r
                \<and> (if is_list j \<or> tagged_dict j
                    then fst (deserialize reg False j) = Inr r else r = j)
                \<and> agrees v r"
proof (induction v)
  case VNone
  have "\<forall>n\<ge>1. dumps_loads n dflt VNone = Inr VNone"
    by (simp add: dumps_loads_scalar)
  then show ?case by (intro exI [of _ 1]) (simp add: deserialize.simps)
next
  case (VBool b)
  have "\<forall>n\<ge>1. dumps_loads n dflt (VBool b) = Inr (VBool b)"
    by (simp add: dumps_loads_scalar)
  then show ?case by (intro exI [of _ 1]) (simp add: deserialize.simps)
next
  case (VInt i)
  have "\<forall>n\<ge>1. dumps_loads n dflt (VInt i) = Inr (VInt i)"
    by (simp add: dumps_loads_scalar)
  then show ?case by (intro exI [of _ 1]) (simp add: deserialize.simps)
next
  case (VStr s)
  have "\<forall>n\<ge>1. dumps_loads n dflt (VStr s) = Inr (VStr s)"
    by (simp add: dumps_loads_scalar)
  then show ?case by (intro exI [of _ 1]) (simp add: deserialize.simps)
next
  case (VList xs)
  let ?G = "\<lambda>x n. \<exists>j r. dumps_loads n dflt x = Inr j
                \<and> fst (deserialize reg False j) = Inr r \<and> agrees x r"
  have "\<forall>x \<in> set xs. \<exists>N. \<forall>n\<ge>N. ?G x n"
  proof
    fix x assume x: "x \<in> set xs"
    then have "supported reg x" using VList.prems by simp
    from VList.IH [OF x this] show "\<exists>N. \<forall>n\<ge>N. ?G x n" by blast
  qed
  then obtain N where N: "\<forall>n\<ge>N. \<forall>x \<in> set xs. ?G x n"
    using enough_for_all [of xs ?G] by blast
  have "\<exists>j r. dumps_loads n dflt (VList xs) = Inr j
                \<and> fst (deserialize reg False j) = Inr r
                \<and> (if is_list j \<or> tagged_dict j
                    then fst (deserialize reg False j) = Inr r else r = j)
                \<and> agrees (VList xs) r" if ge: "n \<ge> Suc N" for n
  proof -
    obtain m where m: "n = Suc m" "m \<ge> N" using ge by (cases n) auto
    have "\<forall>x \<in> set xs. \<exists>j r. dumps_loads m dflt x = Inr j
            \<and> fst (deserialize reg False j) = Inr r \<and> agrees x r"
      using N m by blast
    then obtain js rs where
      js: "list_all2 (\<lambda>x j. dumps_loads m dflt x = Inr j) xs js"
      and rs: "list_all2 (\<lambda>j r. fst (deserialize reg False j) = Inr r) js rs"
      and ag: "list_all2 agrees xs rs"
      using list_all2_chain [of xs "\<lambda>x j. dumps_loads m dflt x = Inr j"
          "\<lambda>j r. fst (deserialize reg False j) = Inr r" agrees] by blast
    have "mapM (dumps_loads m dflt) xs = Inr js"
      using js by (rule mapM_Inr)
    then have e: "dumps_loads n dflt (VList xs) = Inr (VList js)"
      by (simp add: m)
    have d: "fst (deserialize reg False (VList js)) = Inr (VList rs)"
      using rs by (intro deserialize_VList_Inr deserialize_list_Inr)
    show ?thesis using e d ag by simp
  qed
  then show ?case by blast
next
  case (VDict d)
  then show ?case by simp
next
  case (VOpaque t s)
  let ?v = "VOpaque t s"
  from VOpaque.prems obtain f g d where
    f: "serializers reg t = Some f" "f ?v = Inr (VDict d)" "plain (VDict d)"
    and g: "deserializers reg (tname t) = Some g"
       "g (AList.delete ''_serialized_type'' d) = Inr ?v"
    by (auto simp: codec_round_trips_def split: option.splits sum.splits pyval.splits)
  let ?d = "AList.update ''_serialized_type'' (VStr (tname t)) d"
  have d0: "dflt ?v = Inr (VDict ?d)"
    using f by (simp add: dflt_def serialize_object_def)
  have "plain (VDict ?d)"
    using f(3) set_update_subset [of "''_serialized_type''" "VStr (tname t)" d] by auto
  then obtain N where N: "\<forall>n\<ge>N. dumps_loads n dflt (VDict ?d) = Inr (VDict ?d)"
    using dumps_loads_plain by blast
  have tag: "map_of ?d ''_serialized_type'' = Some (VStr (tname t))"
    by (simp add: update_conv')
  have "deserialize_dict reg False ?d =
          (Inr ?v, AList.update ''_serialized_type'' (VStr (tname t))
                     (AList.delete ''_serialized_type'' ?d))"
    using tag g by (simp add: deserialize_dict.simps delete_update_same)
  then have r: "fst (deserialize reg False (VDict ?d)) = Inr ?v"
    by (simp add: deserialize_VDict_fst)
  have "\<exists>j r. dumps_loads n dflt ?v = Inr j
                \<and> fst (deserialize reg False j) = Inr r
                \<and> (if is_list j \<or> tagged_dict j
                    then fst (deserialize reg False j) = Inr r else r = j)
                \<and> agrees ?v r" if ge: "n \<ge> Suc N" for n
  proof -
    obtain m where m: "n = Suc m" "m \<ge> N" using ge by (cases n) auto
    have "dumps_loads n dflt ?v = Inr (VDict ?d)"
      using N m d0 by simp
    then show ?thesis using r by (simp add: dom_update)
  qed
  then show ?case by blast
next
  case (VObj t attrs)
  from VObj.prems obtain td where
    t: "serializers reg t = None" "deserializers reg (fullname t) = None"
       "serializable_types reg (fullname t) = Some td" "ctype (cls td) = t"
    and allowed: "distinct (map fst attrs)"
       "\<forall>kv \<in> set attrs. \<not> startswith_underscore (fst kv)"
       "\<forall>key \<in> fst ` set attrs. key \<notin> set (transient_attributes td)"
    and ctor: "ctor_stores (cls td)
             (filter (\<lambda>key. key \<in> set (cparams (cls td))) (map fst attrs))"
    and fields: "\<forall>kv \<in> set attrs. (case snd kv of
            VDict d \<Rightarrow> ''_serialized_type'' \<notin> fst ` set d \<and> plain (VDict d)
          | v \<Rightarrow> supported reg v)"
    by (auto split: option.splits)
  let ?F = "\<lambda>kv n. \<exists>kj kr.
      (case kv of (k, v) \<Rightarrow> case dumps_loads n dflt v of
                                  Inl e \<Rightarrow> Inl e
                                | Inr w \<Rightarrow> Inr (k, w)) = Inr kj
      \<and> decoded reg False kj kr \<and> agrees (snd kv) (snd kr)"
  have "\<forall>kv \<in> set attrs. \<exists>N. \<forall>n\<ge>N. ?F kv n"
  proof
    fix kv assume kv: "kv \<in> set attrs"
    obtain k v where kv_eq: "kv = (k, v)" by (cases kv)
    have fk: "case v of
            VDict d \<Rightarrow> ''_serialized_type'' \<notin> fst ` set d \<and> plain (VDict d)
          | v \<Rightarrow> supported reg v"
      using bspec [OF fields kv] by (simp add: kv_eq)
    show "\<exists>N. \<forall>n\<ge>N. ?F kv n"
    proof (cases "\<exists>d. v = VDict d")
      case True
      then obtain d where d: "v = VDict d" by blast
      then have pl: "plain v" "\<not> tagged_dict v"
        using fk by auto
      obtain N where N: "\<forall>n\<ge>N. dumps_loads n dflt v = Inr v"
        using dumps_loads_plain [OF pl(1)] by blast
      have "?F kv n" if ge: "n \<ge> N" for n
      proof -
        have "(case kv of (k, v) \<Rightarrow> case dumps_loads n dflt v of
                                  Inl e \<Rightarrow> Inl e
                                | Inr w \<Rightarrow> Inr (k, w)) = Inr (k, v)"
          using N ge by (simp add: kv_eq)
        moreover have "decoded reg False (k, v) (k, v)"
          using pl(2) d by (simp add: decoded_def)
        moreover have "agrees (snd kv) (snd (k, v))"
          by (simp add: kv_eq d)
        ultimately show ?thesis by blast
      qed
      then show ?thesis by blast
    next
      case False
      then have "supported reg v"
        using fk by (cases v) auto
      moreover have "v \<in> Basic_BNFs.snds kv"
        by (simp add: kv_eq)
      ultimately obtain N where N: "\<forall>n\<ge>N. \<exists>j r. dumps_loads n dflt v = Inr j
                \<and> fst (deserialize reg False j) = Inr r
                \<and> (if is_list j \<or> tagged_dict j
                    then fst (deserialize reg False j) = Inr r else r = j)
                \<and> agrees v r"
        using VObj.IH [OF kv] by blast
      have "?F kv n" if ge: "n \<ge> N" for n
      proof -
        obtain j r where jr: "dumps_loads n dflt v = Inr j"
            "if is_list j \<or> tagged_dict j
             then fst (deserialize reg False j) = Inr r else r = j"
            "agrees v r"
          using N ge by blast
        have "(case kv of (k, v) \<Rightarrow> case dumps_loads n dflt v of
                                  Inl e \<Rightarrow> Inl e
                                | Inr w \<Rightarrow> Inr (k, w)) = Inr (k, j)"
          using jr(1) by (simp add: kv_eq)
        moreover have "decoded reg False (k, j) (k, r)"
          using jr(2) by (simp add: decoded_def)
        moreover have "agrees (snd kv) (snd (k, r))"
          using jr(3) by (simp add: kv_eq)
        ultimately show ?thesis by blast
      qed
      then show ?thesis by blast
    qed
  qed
  then obtain N where N: "\<forall>n\<ge>N. \<forall>kv \<in> set attrs. ?F kv n"
    using enough_for_all [of attrs ?F] by blast
  have "\<exists>j r. dumps_loads n dflt (VObj t attrs) = Inr j
                \<and> fst (deserialize reg False j) = Inr r
                \<and> (if is_list j \<or> tagged_dict j
                    then fst (deserialize reg False j) = Inr r else r = j)
                \<and> agrees (VObj t attrs) r" if ge: "n \<ge> Suc (Suc (Suc N))" for n
  proof -
    obtain m where m: "n = Suc (Suc m)" "m \<ge> N" "1 \<le> m"
      using ge by (cases n; cases "n - 1") auto
    have "\<forall>kv \<in> set attrs. \<exists>kj kr.
      (case kv of (k, v) \<Rightarrow> case dumps_loads m dflt v of
                                  Inl e \<Rightarrow> Inl e
                                | Inr w \<Rightarrow> Inr (k, w)) = Inr kj
      \<and> decoded reg False kj kr \<and> agrees (snd kv) (snd kr)"
      using N m by blast
    then obtain js kvs where
      enc: "list_all2 (\<lambda>kv kj. (case kv of (k, v) \<Rightarrow> case dumps_loads m dflt v of
                                  Inl e \<Rightarrow> Inl e
                                | Inr w \<Rightarrow> Inr (k, w)) = Inr kj) attrs js"
      and dec: "list_all2 (decoded reg False) js kvs"
      and agr: "list_all2 (\<lambda>kv kr. agrees (snd kv) (snd kr)) attrs kvs"
      using list_all2_chain [of attrs
          "\<lambda>kv kj. (case kv of (k, v) \<Rightarrow> case dumps_loads m dflt v of
                                  Inl e \<Rightarrow> Inl e
                                | Inr w \<Rightarrow> Inr (k, w)) = Inr kj"
          "decoded reg False" "\<lambda>kv kr. agrees (snd kv) (snd kr)"] by blast
    obtain r where r: "dumps_loads (Suc (Suc m)) dflt (VObj t attrs)
              = Inr (VDict (js @ [(''_serialized_type'', VStr (fullname t))]))"
         "fst (deserialize reg False
                  (VDict (js @ [(''_serialized_type'', VStr (fullname t))]))) = Inr r"
         "agrees (VObj t attrs) r"
      using round_trip_object [OF t allowed ctor _ dec agr m(3)]
        enc unfolding dflt_def by blast
    show ?thesis
      using r unfolding m(1) by (intro exI [of _ "VDict (js @ [(''_serialized_type'', VStr (fullname t))])"] exI [of _ r]) simp
  qed
  then show ?case by blast
qed

lemma nested_eval:
  "serialize 1000 (point_registry None) nested_point False
   = Inr (VDict
       [(''x'', VInt 1),
        (''y'', VList [VDict [(''x'', VInt 2), (''y'', VInt 3),
                              (''_serialized_type'', VStr ''app.Point'')]]),
        (''label'', VStr ''origin''),
        (''meta'', VDict [(''k'', VInt 1)]),
        (''_serialized_type'', VStr ''app.Point'')])
  \<and> fst (deserialize (point_registry None) False (VDict
       [(''x'', VInt 1),
        (''y'', VList [VDict [(''x'', VInt 2), (''y'', VInt 3),
                              (''_serialized_type'', VStr ''app.Point'')]]),
        (''label'', VStr ''origin''),
        (''meta'', VDict [(''k'', VInt 1)]),
        (''_serialized_type'', VStr ''app.Point'')]))
    = Inr (VObj point_type
       [(''x'', VInt 1),
        (''y'', VList [VObj point_type [(''x'', VInt 2), (''y'', VInt 3)]]),
        (''label'', VStr ''origin''),
        (''meta'', VDict [(''k'', VInt 1)])])"
  by (simp add: nested_point_def serialize_def serialize_object_def serialize_attributes_def
      SerializableTypeData_def set_all_def Let_def eval_nat_numeral
      deserialize.simps deserialize_dict.simps construct_def point_class_def AList.delete_eq)

text \<open>
  Where the round trip holds: for every supported value \<open>i\<close>, in particular every
  supported instance of a registered class, and every recursion limit that is large
  enough, \<open>serialize\<close> returns and \<open>deserialize\<close> of what it returned returns a value that
  agrees with \<open>i\<close> on every field of \<open>i\<close>, at every depth.
\<close>

lemma round_trip_supported:
  assumes "supported reg i"
  shows "\<exists>N. \<forall>limit\<ge>N. \<exists>j r. serialize limit reg i False = Inr j
           \<and> fst (deserialize reg False j) = Inr r \<and> agrees i r"
  using round_trip_value [OF assms] unfolding serialize_def by blast

text \<open>
  The nested \<open>Point\<close> is supported; under the limit 1000 the round trip gives it back.
\<close>

lemma round_trip_nested_point:
  "supported (point_registry None) nested_point
   \<and> (\<exists>N. \<forall>limit\<ge>N. \<exists>j r.
          serialize limit (point_registry None) nested_point False = Inr j
        \<and> fst (deserialize (point_registry None) False j) = Inr r
        \<and> agrees nested_point r)
   \<and> (\<exists>j. serialize 1000 (point_registry None) nested_point False = Inr j
        \<and> fst (deserialize (point_registry None) False j) = Inr nested_point)"
proof -
  have s: "supported (point_registry None) nested_point"
    by (simp add: nested_point_def SerializableTypeData_def point_class_def [symmetric]
        ctor_stores_point)
       (simp add: point_class_def)
  show ?thesis
    using s round_trip_supported [OF s] nested_eval by (simp add: nested_point_def)
qed

text \<open>
  C1 at a \<open>Point\<close> whose \<open>x\<close> is a list with the dict \<open>{'a': 1}\<close> in it: \<open>serialize\<close>
  returns, and \<open>deserialize\<close> of what it returned raises \<open>KeyError\<close>, since
  \<open>deserialize_list\<close> hands the dict to \<open>deserialize_dict\<close>, which reads its key
  \<open>'_serialized_type'\<close> without a test. With the same dict as the value of \<open>x\<close> itself the
  loop of \<open>deserialize_dict\<close> lets it through and the round trip gives the \<open>Point\<close> back.
\<close>

theorem C1_round_trip_fails:
  "serialize 1000 (point_registry None)
     (VObj point_type [(''x'', VList [VDict [(''a'', VInt 1)]]), (''y'', VInt 2)]) False
   = Inr (VDict [(''x'', VList [VDict [(''a'', VInt 1)]]), (''y'', VInt 2),
                 (''_serialized_type'', VStr ''app.Point'')])
   \<and> fst (deserialize (point_registry None) False
       (VDict [(''x'', VList [VDict [(''a'', VInt 1)]]), (''y'', VInt 2),
               (''_serialized_type'', VStr ''app.Point'')]))
     = Inl (KeyError (VStr ''_serialized_type''))
   \<and> serialize 1000 (point_registry None)
     (VObj point_type [(''x'', VDict [(''a'', VInt 1)]), (''y'', VInt 2)]) False
   = Inr (VDict [(''x'', VDict [(''a'', VInt 1)]), (''y'', VInt 2),
                 (''_serialized_type'', VStr ''app.Point'')])
   \<and> fst (deserialize (point_registry None) False
       (VDict [(''x'', VDict [(''a'', VInt 1)]), (''y'', VInt 2),
               (''_serialized_type'', VStr ''app.Point'')]))
     = Inr (VObj point_type [(''x'', VDict [(''a'', VInt 1)]), (''y'', VInt 2)])"
  by (simp add: serialize_def serialize_object_def serialize_attributes_def
      SerializableTypeData_def set_all_def Let_def eval_nat_numeral
      deserialize.simps deserialize_dict.simps construct_def point_class_def AList.delete_eq)

section \<open>Registration\<close>

text \<open>
  C9: a second decoder for a name that already has one raises at registration, and a
  second encoder for a type that already has one replaces the first without an error.
\<close>

theorem C9_duplicate_registration:
  "(deserializers reg (tname t) = Some g0 \<longrightarrow> Deserializer_init reg g t = Inl RuntimeError)
   \<and> (serializers reg t = Some f0 \<longrightarrow>
        serializers (Serializer_init reg f t) = (serializers reg)(t \<mapsto> f)
        \<and> serializers (Serializer_init reg f t) t = Some f
        \<and> deserializers (Serializer_init reg f t) = deserializers reg
        \<and> serializable_types (Serializer_init reg f t) = serializable_types reg)"
  by (auto simp: Deserializer_init_def Serializer_init_def)

text \<open>C9 at the type \<open>Point\<close>, registered twice with each decorator.\<close>

theorem C9_duplicate_registration_witness:
  "Deserializer_init (no_registrations\<lparr>deserializers := [''Point'' \<mapsto> (\<lambda>d. Inr VNone)]\<rparr>)
     (\<lambda>d. Inr (VInt 0)) point_type = Inl RuntimeError
   \<and> serializers (Serializer_init
        (no_registrations\<lparr>serializers := [point_type \<mapsto> (\<lambda>v. Inr (VDict []))]\<rparr>)
        (\<lambda>v. Inl TypeError) point_type) point_type = Some (\<lambda>v. Inl TypeError)"
  using C9_duplicate_registration [of
      "no_registrations\<lparr>deserializers := [''Point'' \<mapsto> (\<lambda>d. Inr VNone)]\<rparr>"
      point_type "\<lambda>d. Inr VNone" "\<lambda>d. Inr (VInt 0)" "\<lambda>v. Inr (VDict [])" "\<lambda>v. Inl TypeError"]
    C9_duplicate_registration [of
      "no_registrations\<lparr>serializers := [point_type \<mapsto> (\<lambda>v. Inr (VDict []))]\<rparr>"
      point_type "\<lambda>d. Inr VNone" "\<lambda>d. Inr (VInt 0)" "\<lambda>v. Inr (VDict [])" "\<lambda>v. Inl TypeError"]
  by (simp add: no_registrations_def)

end
